(* ===== verification/Mvcc_Prelude.thy ===== *)
theory Mvcc_Prelude
  imports Main "HOL-Library.Word" "HOL-Library.List_Lexorder" "HOL-Library.Product_Lexorder"
begin

text \<open>
  Shared vocabulary of the development: Rust's \<open>Result\<close> as a sum, the machine integers of the
  crate, sorted lists (the iteration order of \<open>BTreeMap\<close> and \<open>BTreeSet\<close>), finite maps, and the
  fact collections the component theories feed.
\<close>

named_theorems engine_defs \<open>defining equations of the engine operations\<close>
named_theorems history_simps \<open>rewriting of version histories under updates\<close>
named_theorems view_simps \<open>effect of a backend transition on the abstract view\<close>

section \<open>Results\<close>

text \<open>\<open>Result<T, E>\<close> is \<open>E + T\<close>; \<open>Ok\<close> and \<open>Err\<close> name its injections.\<close>

abbreviation Ok :: "'a \<Rightarrow> 'e + 'a" where
  "Ok x \<equiv> Inr x"

abbreviation Err :: "'e \<Rightarrow> 'e + 'a" where
  "Err e \<equiv> Inl e"

text \<open>\<open>Result::map_err\<close>, and the \<open>?\<close> operator of a function that does not touch the state.\<close>

fun map_err :: "('e \<Rightarrow> 'f) \<Rightarrow> 'e + 'a \<Rightarrow> 'f + 'a" where
  "map_err f (Inl e) = Inl (f e)"
| "map_err f (Inr x) = Inr x"

fun res_bind :: "'e + 'a \<Rightarrow> ('a \<Rightarrow> 'e + 'b) \<Rightarrow> 'e + 'b" where
  "res_bind (Inl e) f = Inl e"
| "res_bind (Inr x) f = f x"

lemma map_err_eq_Ok [simp]: "map_err f r = Inr x \<longleftrightarrow> r = Inr x"
  by (cases r) auto

lemma map_err_eq_Err [simp]: "map_err f r = Inl e \<longleftrightarrow> (\<exists>e'. r = Inl e' \<and> e = f e')"
  by (cases r) auto

lemma res_bind_eq_Ok: "res_bind r f = Inr y \<longleftrightarrow> (\<exists>x. r = Inr x \<and> f x = Inr y)"
  by (cases r) auto

lemma res_bind_split:
  "P (res_bind r f) \<longleftrightarrow> (\<forall>e. r = Inl e \<longrightarrow> P (Inl e)) \<and> (\<forall>x. r = Inr x \<longrightarrow> P (f x))"
  by (cases r) auto

section \<open>Machine integers\<close>

type_synonym u8 = "8 word"
type_synonym u32 = "32 word"
type_synonym u64 = "64 word"
type_synonym u128 = "128 word"

text \<open>
  \<open>usize\<close> of a 64-bit target. Caller-supplied sizes are words, so that \<open>+ 1\<close> on them wraps as a
  release build does; the length of a collection that exists in memory is a \<open>nat\<close>, since no
  Rust allocation exceeds \<open>isize::MAX\<close> bytes.
\<close>

type_synonym usize = "64 word"

lemma unat_plus_one:
  fixes w :: usize
  assumes "w \<noteq> - 1"
  shows "unat (w + 1) = Suc (unat w)"
  using assms by (metis Suc_eq_plus1 add.commute unatSuc word_neq_0_conv add_eq_0_iff)

lemma unat_minus_of_nat:
  fixes w :: usize
  assumes "n \<le> unat w"
  shows "unat (w - of_nat n) = unat w - n"
proof -
  have n: "unat (of_nat n :: usize) = n"
    using assms le_less_trans [OF assms unsigned_less [of w]] by (simp add: unat_of_nat)
  then have "(of_nat n :: usize) \<le> w"
    using assms by (simp add: word_le_nat_alt)
  then show ?thesis
    using n by (simp add: unat_sub)
qed

section \<open>Strictly sorted lists\<close>

abbreviation strict_sorted_list :: "'a::linorder list \<Rightarrow> bool" where
  "strict_sorted_list xs \<equiv> sorted_wrt (<) xs"

lemma strict_sorted_distinct: "strict_sorted_list xs \<Longrightarrow> distinct xs"
  by (simp add: strict_sorted_iff)

lemma strict_sorted_eq_sorted_list_of_set:
  assumes "strict_sorted_list xs" and "set xs = A"
  shows "xs = sorted_list_of_set A"
  using assms by (metis sorted_list_of_set.idem_if_sorted_distinct strict_sorted_iff)

lemma strict_sorted_unique:
  assumes "strict_sorted_list xs" "strict_sorted_list ys" "set xs = set ys"
  shows "xs = ys"
  using assms by (metis strict_sorted_eq_sorted_list_of_set)

lemma strict_sorted_filter: "strict_sorted_list xs \<Longrightarrow> strict_sorted_list (filter P xs)"
  by (induction xs) auto

lemma dropWhile_less_eq_filter:
  "sorted_wrt (\<lambda>x y. f x < f y) xs \<Longrightarrow> dropWhile (\<lambda>x. f x < a) xs = filter (\<lambda>x. a \<le> f x) xs"
  for f :: "'b \<Rightarrow> 'a::linorder"
proof (induction xs)
  case (Cons x xs)
  show ?case
  proof (cases "f x < a")
    case False
    with Cons.prems have "\<forall>y\<in>set xs. a \<le> f y"
      by (force simp: not_less)
    with False show ?thesis
      by (simp add: filter_id_conv)
  qed (use Cons in auto)
qed simp

lemma takeWhile_downclosed_eq_filter:
  "sorted_wrt (\<lambda>x y. P y \<longrightarrow> P x) xs \<Longrightarrow> takeWhile P xs = filter P xs"
proof (induction xs)
  case (Cons x xs)
  then show ?case
    by (auto simp: filter_empty_conv)
qed simp

lemma sorted_wrt_filter': "sorted_wrt R xs \<Longrightarrow> sorted_wrt R (filter P xs)"
  by (induction xs) auto

lemma strict_sorted_take_below:
  assumes "strict_sorted_list xs" and "x \<in> set xs" and "s \<in> set (take (Suc n) xs)" and "x < s"
  shows "x \<in> set (take n xs)"
proof -
  from assms(2) obtain i where i: "i < length xs" "x = xs ! i"
    by (auto simp: in_set_conv_nth)
  from assms(3) obtain j where j: "j < length xs" "j \<le> n" "s = xs ! j"
    by (auto simp: in_set_conv_nth)
  have "\<not> j \<le> i"
    using assms(1,4) i j by (auto simp: sorted_wrt_iff_nth_less le_less dest: less_asym)
  with i j show ?thesis
    by (auto simp: in_set_conv_nth intro!: exI [of _ i])
qed

lemma take_Suc_cut:
  "(if n < length (take (Suc n) xs) then butlast (take (Suc n) xs) else take (Suc n) xs) =
     take (min n (length xs)) xs"
proof (cases "n < length xs")
  case True
  then have "butlast (take (Suc n) xs) = take n xs"
    by (subst butlast_take) auto
  with True show ?thesis
    by simp
qed simp

section \<open>Finite sets of linearly ordered elements\<close>

lemma Max_eq_last_sorted:
  assumes "strict_sorted_list xs" and "xs \<noteq> []"
  shows "Max (set xs) = last xs"
proof (rule Max_eqI)
  show "last xs \<in> set xs"
    using assms by simp
  fix y assume "y \<in> set xs"
  then show "y \<le> last xs"
    using assms by (metis append_butlast_last_id order.order_iff_strict sorted_wrt_append
        list.set_intros(1) in_set_conv_decomp_last Un_iff empty_iff set_append insert_iff list.set)
qed simp

end
