(* ===== verification/Mvcc_Types.thy ===== *)
theory Mvcc_Types
  imports Mvcc_Prelude
begin

text \<open>
  The data of \<open>types.rs\<close>: timestamps and transaction ids (newtypes over \<open>u128\<close> and \<open>u64\<close> with
  their derived order), keys and values (byte vectors, compared lexicographically as \<open>Vec<u8>\<close>
  is), mutations, intents, committed versions, physical writes and read guards.
\<close>

section \<open>Timestamps and transaction ids\<close>

datatype timestamp = Timestamp (ts_val: u128)

datatype txn_id = TxnId (txn_val: u64)

instantiation timestamp :: linorder
begin

definition less_eq_timestamp :: "timestamp \<Rightarrow> timestamp \<Rightarrow> bool" where
  "a \<le> b \<longleftrightarrow> ts_val a \<le> ts_val b"

definition less_timestamp :: "timestamp \<Rightarrow> timestamp \<Rightarrow> bool" where
  "a < b \<longleftrightarrow> ts_val a < ts_val b"

instance
  by standard (auto simp: less_eq_timestamp_def less_timestamp_def timestamp.expand)

end

instantiation txn_id :: linorder
begin

definition less_eq_txn_id :: "txn_id \<Rightarrow> txn_id \<Rightarrow> bool" where
  "a \<le> b \<longleftrightarrow> txn_val a \<le> txn_val b"

definition less_txn_id :: "txn_id \<Rightarrow> txn_id \<Rightarrow> bool" where
  "a < b \<longleftrightarrow> txn_val a < txn_val b"

instance
  by standard (auto simp: less_eq_txn_id_def less_txn_id_def txn_id.expand)

end

section \<open>Keys, values and records\<close>

type_synonym key = "u8 list"
type_synonym val = "u8 list"

datatype mutation = Put val | Delete

fun mutation_value :: "mutation \<Rightarrow> val option" where
  "mutation_value (Put v) = Some v"
| "mutation_value Delete = None"

definition is_delete :: "mutation \<Rightarrow> bool" where
  "is_delete m = (case m of Delete \<Rightarrow> True | _ \<Rightarrow> False)"

record intent =
  intent_key :: key
  intent_txn_id :: txn_id
  intent_start_ts :: timestamp
  intent_mutation :: mutation
  intent_min_commit_ts :: "timestamp option"

record committed_version =
  cv_key :: key
  cv_commit_ts :: timestamp
  cv_value :: "val option"

record physical_write =
  pw_key :: key
  pw_value :: "val option"

datatype read_guard =
    ExpectedVersion (guard_key: key) (guard_read_ts: timestamp) "timestamp option"
  | ExpectedValue (guard_key: key) (guard_read_ts: timestamp) "val option"

section \<open>Facts\<close>

lemma timestamp_le_iff [simp]: "Timestamp a \<le> Timestamp b \<longleftrightarrow> a \<le> b"
  by (simp add: less_eq_timestamp_def)

lemma timestamp_less_iff [simp]: "Timestamp a < Timestamp b \<longleftrightarrow> a < b"
  by (simp add: less_timestamp_def)

lemma txn_id_le_iff [simp]: "TxnId a \<le> TxnId b \<longleftrightarrow> a \<le> b"
  by (simp add: less_eq_txn_id_def)

lemma txn_id_less_iff [simp]: "TxnId a < TxnId b \<longleftrightarrow> a < b"
  by (simp add: less_txn_id_def)

text \<open>\<open>Timestamp(0)\<close> and \<open>Timestamp(u128::MAX)\<close> bound every timestamp.\<close>

lemma timestamp_zero_le [simp]: "Timestamp 0 \<le> t"
  by (cases t) simp

lemma timestamp_le_max [simp]: "t \<le> Timestamp (- 1)"
  by (cases t) (simp add: word_order.extremum)

lemma is_delete_iff: "is_delete m \<longleftrightarrow> mutation_value m = None"
  by (cases m) (auto simp: is_delete_def)

lemma mutation_eq_iff: "m = m' \<longleftrightarrow> mutation_value m = mutation_value m'"
  by (cases m; cases m') auto

end
