(* ===== verification/Mvcc_View.thy ===== *)
theory Mvcc_View
  imports Mvcc_Types "HOL-Library.Sublist"
begin

text \<open>
  The abstract state every backend represents: per key a finite history of committed versions
  (\<open>None\<close> inside the history is a tombstone) and at most one intent. Backend methods are
  specified by what they read from this view and how they change it; the engine's correctness
  is stated over it too.
\<close>

section \<open>Version histories\<close>

type_synonym history = "timestamp \<rightharpoonup> val option"

definition newest_ts :: "history \<Rightarrow> timestamp option" where
  "newest_ts h = (if dom h = {} then None else Some (Max (dom h)))"

definition visible_ts :: "history \<Rightarrow> timestamp \<Rightarrow> timestamp option" where
  "visible_ts h ts = newest_ts (h |` {..ts})"

definition visible :: "history \<Rightarrow> timestamp \<Rightarrow> (timestamp \<times> val option) option" where
  "visible h ts = map_option (\<lambda>t. (t, the (h t))) (visible_ts h ts)"

definition visible_value :: "history \<Rightarrow> timestamp \<Rightarrow> val option" where
  "visible_value h ts = Option.bind (visible h ts) snd"

definition as_version :: "key \<Rightarrow> timestamp \<times> val option \<Rightarrow> committed_version" where
  "as_version k e = \<lparr>cv_key = k, cv_commit_ts = fst e, cv_value = snd e\<rparr>"

definition version_list :: "key \<Rightarrow> history \<Rightarrow> committed_version list" where
  "version_list k h = map (\<lambda>t. as_version k (t, the (h t))) (sorted_list_of_set (dom h))"

definition older_desc :: "history \<Rightarrow> timestamp \<Rightarrow> timestamp list" where
  "older_desc h t = rev (sorted_list_of_set {s \<in> dom h. s < t})"

section \<open>Views\<close>

record mvcc_view =
  vers :: "key \<Rightarrow> history"
  locks :: "key \<rightharpoonup> intent"

definition committed_keys :: "mvcc_view \<Rightarrow> key set" where
  "committed_keys v = {k. vers v k \<noteq> Map.empty}"

definition view_keys :: "mvcc_view \<Rightarrow> key set" where
  "view_keys v = committed_keys v \<union> dom (locks v)"

definition view_ok :: "mvcc_view \<Rightarrow> bool" where
  "view_ok v \<longleftrightarrow> finite (view_keys v) \<and> (\<forall>k. finite (dom (vers v k)))"

definition v_put_intent :: "intent \<Rightarrow> mvcc_view \<Rightarrow> mvcc_view" where
  "v_put_intent i v = v\<lparr>locks := (locks v)(intent_key i \<mapsto> i)\<rparr>"

definition owns :: "mvcc_view \<Rightarrow> key \<Rightarrow> txn_id \<Rightarrow> timestamp \<Rightarrow> bool" where
  "owns v k txn s \<longleftrightarrow>
     (\<exists>i. locks v k = Some i \<and> intent_txn_id i = txn \<and> intent_start_ts i = s)"

definition v_remove_intent :: "key \<times> txn_id \<times> timestamp \<Rightarrow> mvcc_view \<Rightarrow> mvcc_view" where
  "v_remove_intent r v =
     (case r of (k, txn, s) \<Rightarrow> if owns v k txn s then v\<lparr>locks := (locks v)(k := None)\<rparr> else v)"

definition v_put_committed :: "committed_version \<Rightarrow> mvcc_view \<Rightarrow> mvcc_view" where
  "v_put_committed c v =
     v\<lparr>vers := (vers v)(cv_key c := (vers v (cv_key c))(cv_commit_ts c \<mapsto> cv_value c))\<rparr>"

definition v_remove_versions :: "key \<Rightarrow> timestamp set \<Rightarrow> mvcc_view \<Rightarrow> mvcc_view" where
  "v_remove_versions k T v = v\<lparr>vers := (vers v)(k := vers v k |` (- T))\<rparr>"

definition v_keys_from :: "mvcc_view \<Rightarrow> key option \<Rightarrow> nat \<Rightarrow> key list" where
  "v_keys_from v start n =
     take n (filter (\<lambda>k. \<forall>s. start = Some s \<longrightarrow> s \<le> k) (sorted_list_of_set (view_keys v)))"

definition v_keys_from_prefix :: "mvcc_view \<Rightarrow> key \<Rightarrow> key option \<Rightarrow> nat \<Rightarrow> key list" where
  "v_keys_from_prefix v p start n =
     take n (filter (\<lambda>k. prefix p k \<and> (\<forall>s. start = Some s \<longrightarrow> s \<le> k))
       (sorted_list_of_set (committed_keys v)))"

section \<open>Laws of histories\<close>

lemma newest_ts_empty [simp]: "newest_ts Map.empty = None"
  by (simp add: newest_ts_def)

lemma newest_ts_None_iff: "newest_ts h = None \<longleftrightarrow> h = Map.empty"
  by (auto simp: newest_ts_def)

lemma newest_ts_Some_iff:
  "finite (dom h) \<Longrightarrow> newest_ts h = Some t \<longleftrightarrow> t \<in> dom h \<and> (\<forall>s\<in>dom h. s \<le> t)"
  by (auto simp: newest_ts_def Max_eq_iff intro: Max_eqI)

lemma visible_ts_Some_iff:
  "finite (dom h) \<Longrightarrow>
   visible_ts h ts = Some t \<longleftrightarrow> t \<in> dom h \<and> t \<le> ts \<and> (\<forall>s\<in>dom h. s \<le> ts \<longrightarrow> s \<le> t)"
  by (auto simp: visible_ts_def newest_ts_Some_iff)

lemma visible_ts_None_iff: "visible_ts h ts = None \<longleftrightarrow> (\<forall>s\<in>dom h. ts < s)"
  by (auto simp: visible_ts_def newest_ts_None_iff fun_eq_iff restrict_map_def dom_def not_le)

lemma visible_Some_iff:
  "finite (dom h) \<Longrightarrow>
   visible h ts = Some (t, x) \<longleftrightarrow> h t = Some x \<and> t \<le> ts \<and> (\<forall>s\<in>dom h. s \<le> ts \<longrightarrow> s \<le> t)"
  by (auto simp: visible_def visible_ts_Some_iff)

lemma visible_None_iff: "visible h ts = None \<longleftrightarrow> (\<forall>s\<in>dom h. ts < s)"
  by (simp add: visible_def visible_ts_None_iff)

lemma visible_empty [simp]: "visible Map.empty ts = None"
  by (simp add: visible_None_iff)

text \<open>Two histories that agree at and below \<open>ts\<close> show the same version there.\<close>

lemma visible_cong:
  assumes "finite (dom h)" and "\<And>t. t \<le> ts \<Longrightarrow> h t = h' t"
  shows "visible h ts = visible h' ts"
proof -
  have eq: "h |` {..ts} = h' |` {..ts}"
    using assms(2) by (auto simp: restrict_map_def fun_eq_iff)
  show ?thesis
  proof (cases "visible_ts h ts")
    case None
    with eq show ?thesis
      by (simp add: visible_def visible_ts_def)
  next
    case (Some t)
    with assms(1) have "t \<le> ts"
      by (simp add: visible_ts_Some_iff)
    with Some eq assms(2) show ?thesis
      by (simp add: visible_def visible_ts_def)
  qed
qed

text \<open>
  Writing a version above everything visible at \<open>ts\<close>: it is what a reader at \<open>ts\<close> sees exactly
  when its timestamp is at most \<open>ts\<close>.
\<close>

lemma visible_update [history_simps]:
  assumes "finite (dom h)" and "\<And>s. s \<in> dom h \<Longrightarrow> s < c"
  shows "visible (h(c \<mapsto> x)) ts = (if c \<le> ts then Some (c, x) else visible h ts)"
proof (cases "c \<le> ts")
  case True
  have "visible (h(c \<mapsto> x)) ts = Some (c, x)"
    using assms True by (subst visible_Some_iff) (auto intro: less_imp_le)
  with True show ?thesis by simp
next
  case False
  then have "visible (h(c \<mapsto> x)) ts = visible h ts"
    using assms(1) by (intro visible_cong) auto
  with False show ?thesis by simp
qed

lemma newest_ts_update [history_simps]:
  assumes "finite (dom h)" and "\<And>s. s \<in> dom h \<Longrightarrow> s < c"
  shows "newest_ts (h(c \<mapsto> x)) = Some c"
  using assms by (subst newest_ts_Some_iff) (auto intro: less_imp_le)

lemma set_older_desc: "finite (dom h) \<Longrightarrow> set (older_desc h t) = {s \<in> dom h. s < t}"
  by (simp add: older_desc_def)

lemma distinct_older_desc: "distinct (older_desc h t)"
  by (simp add: older_desc_def)

lemma length_older_desc: "length (older_desc h t) = card {s \<in> dom h. s < t}"
  by (simp add: older_desc_def)

section \<open>Laws of views\<close>

lemma vers_v_put_intent [simp]: "vers (v_put_intent i v) = vers v"
  and locks_v_put_intent [simp]: "locks (v_put_intent i v) = (locks v)(intent_key i \<mapsto> i)"
  by (simp_all add: v_put_intent_def)

lemma vers_v_remove_intent [simp]: "vers (v_remove_intent r v) = vers v"
  by (auto simp: v_remove_intent_def split: prod.splits)

lemma locks_v_remove_intent:
  "locks (v_remove_intent (k, txn, s) v) = (if owns v k txn s then (locks v)(k := None) else locks v)"
  by (simp add: v_remove_intent_def)

lemma locks_v_put_committed [simp]: "locks (v_put_committed c v) = locks v"
  and vers_v_put_committed:
    "vers (v_put_committed c v) =
       (vers v)(cv_key c := (vers v (cv_key c))(cv_commit_ts c \<mapsto> cv_value c))"
  by (simp_all add: v_put_committed_def)

lemma locks_v_remove_versions [simp]: "locks (v_remove_versions k T v) = locks v"
  and vers_v_remove_versions: "vers (v_remove_versions k T v) = (vers v)(k := vers v k |` (- T))"
  by (simp_all add: v_remove_versions_def)

lemma view_ok_finite [simp]: "view_ok v \<Longrightarrow> finite (dom (vers v k))"
  by (simp add: view_ok_def)

lemma committed_keys_iff: "k \<in> committed_keys v \<longleftrightarrow> (\<exists>t. t \<in> dom (vers v k))"
  by (auto simp: committed_keys_def dom_def fun_eq_iff)

text \<open>A run of removals, one intent or one version at a time.\<close>

lemma fold_put_intents_vers [simp]: "vers (fold v_put_intent is v) = vers v"
  by (induction "is" arbitrary: v) auto

lemma fold_put_intents_locks:
  "locks (fold v_put_intent is v) = locks v ++ map_of (rev (map (\<lambda>i. (intent_key i, i)) is))"
  by (induction "is" arbitrary: v) auto

lemma fold_remove_intents_vers [simp]: "vers (fold v_remove_intent rs v) = vers v"
  by (induction rs arbitrary: v) auto

lemma fold_remove_intents_locks:
  "locks (fold v_remove_intent rs v) k =
     (case locks v k of
        Some i \<Rightarrow> if (k, intent_txn_id i, intent_start_ts i) \<in> set rs then None else Some i
      | None \<Rightarrow> None)"
proof (induction rs arbitrary: v)
  case (Cons r rs)
  obtain k' txn s where r: "r = (k', txn, s)"
    by (cases r) auto
  show ?case
    by (auto simp: r Cons locks_v_remove_intent owns_def split: option.splits if_splits)
qed (simp split: option.splits)

lemma fold_put_committed_locks [simp]: "locks (fold v_put_committed cs v) = locks v"
  by (induction cs arbitrary: v) auto

lemma fold_put_committed_vers:
  "vers (fold v_put_committed cs v) k t =
     (case map_of (rev (map (\<lambda>c. ((cv_key c, cv_commit_ts c), cv_value c)) cs)) (k, t) of
        Some x \<Rightarrow> Some x | None \<Rightarrow> vers v k t)"
  by (induction cs arbitrary: v) (auto simp: vers_v_put_committed map_add_def split: option.splits)

end
