(* ===== verification/Mvcc_Backend.thy ===== *)
theory Mvcc_Backend
  imports Mvcc_View
begin

text \<open>
  The storage trait of \<open>backend.rs\<close>. \<open>'b backend\<close> is the method table of an implementation with
  state \<open>'b\<close>: a \<open>&self\<close> method returns its result, a \<open>&mut self\<close> method also the new state, which
  it may have changed even when it reports an error. The default bodies of the trait's optional
  methods follow, then the contract the trait's documentation demands of an implementation.
\<close>

section \<open>The trait\<close>

record 'b backend =
  get_committed_versions :: "'b \<Rightarrow> key \<Rightarrow> string + committed_version list"
  get_latest_committed :: "'b \<Rightarrow> key \<Rightarrow> string + committed_version option"
  get_visible_committed :: "'b \<Rightarrow> key \<Rightarrow> timestamp \<Rightarrow> string + committed_version option"
  get_latest_commit_ts :: "'b \<Rightarrow> key \<Rightarrow> string + timestamp option"
  get_intent :: "'b \<Rightarrow> key \<Rightarrow> string + intent option"
  put_intent :: "'b \<Rightarrow> intent \<Rightarrow> (string + unit) \<times> 'b"
  remove_intent :: "'b \<Rightarrow> key \<Rightarrow> txn_id \<Rightarrow> timestamp \<Rightarrow> (string + bool) \<times> 'b"
  put_committed :: "'b \<Rightarrow> committed_version \<Rightarrow> (string + unit) \<times> 'b"
  put_committed_batch :: "'b \<Rightarrow> committed_version list \<Rightarrow> (string + unit) \<times> 'b"
  remove_committed_version :: "'b \<Rightarrow> key \<Rightarrow> timestamp \<Rightarrow> (string + unit) \<times> 'b"
  all_keys :: "'b \<Rightarrow> string + key list"
  put_intents_batch :: "'b \<Rightarrow> intent list \<Rightarrow> (string + unit) \<times> 'b"
  commit_intents_batch ::
    "'b \<Rightarrow> committed_version list \<Rightarrow> (key \<times> txn_id \<times> timestamp) list \<Rightarrow> (string + unit) \<times> 'b"
  remove_intents_batch :: "'b \<Rightarrow> (key \<times> txn_id \<times> timestamp) list \<Rightarrow> (string + unit) \<times> 'b"
  keys_from :: "'b \<Rightarrow> key option \<Rightarrow> usize \<Rightarrow> string + key list"
  keys_from_prefix :: "'b \<Rightarrow> key \<Rightarrow> key option \<Rightarrow> usize \<Rightarrow> string + key list"
  get_committed_timestamps_before :: "'b \<Rightarrow> key \<Rightarrow> timestamp \<Rightarrow> usize \<Rightarrow> string + timestamp list"
  collapse_tombstone :: "'b \<Rightarrow> key \<Rightarrow> timestamp \<Rightarrow> timestamp list \<Rightarrow> (string + unit) \<times> 'b"

section \<open>Default methods\<close>

definition intents_unsupported :: string where
  "intents_unsupported = ''intent transactions are not supported by this backend''"

definition default_get_intent :: "'b \<Rightarrow> key \<Rightarrow> string + intent option" where
  "default_get_intent b key = Ok None"

definition default_put_intent :: "'b \<Rightarrow> intent \<Rightarrow> (string + unit) \<times> 'b" where
  "default_put_intent b intent = (Err intents_unsupported, b)"

definition default_remove_intent :: "'b \<Rightarrow> key \<Rightarrow> txn_id \<Rightarrow> timestamp \<Rightarrow> (string + bool) \<times> 'b" where
  "default_remove_intent b key txn_id start_ts = (Ok False, b)"

definition default_put_intents_batch :: "'b \<Rightarrow> intent list \<Rightarrow> (string + unit) \<times> 'b" where
  "default_put_intents_batch b intents =
     (if intents = [] then (Ok (), b) else (Err intents_unsupported, b))"

definition default_commit_intents_batch ::
  "'b \<Rightarrow> committed_version list \<Rightarrow> (key \<times> txn_id \<times> timestamp) list \<Rightarrow> (string + unit) \<times> 'b" where
  "default_commit_intents_batch b commits removed_intents = (Err intents_unsupported, b)"

definition default_remove_intents_batch ::
  "'b \<Rightarrow> (key \<times> txn_id \<times> timestamp) list \<Rightarrow> (string + unit) \<times> 'b" where
  "default_remove_intents_batch b intents =
     (if intents = [] then (Ok (), b) else (Err intents_unsupported, b))"

section \<open>The contract\<close>

text \<open>
  What a mutating call promises: the representation invariant is kept, and the view is the
  specified one on success and unchanged on failure (all-or-nothing).
\<close>

definition atomic_step ::
  "('b \<Rightarrow> bool) \<Rightarrow> ('b \<Rightarrow> mvcc_view) \<Rightarrow> 'b \<Rightarrow> (string + 'a) \<times> 'b \<Rightarrow> mvcc_view \<Rightarrow> bool" where
  "atomic_step valid view b out v' \<longleftrightarrow>
     (case out of (r, b') \<Rightarrow> valid b' \<and> view b' = (if isl r then view b else v'))"

text \<open>
  Reads: an \<open>Ok\<close> answer is the right one for the view. An implementation may fail at any call.
\<close>

locale backend_reads =
  fixes B :: "'b backend"
    and valid :: "'b \<Rightarrow> bool"
    and view :: "'b \<Rightarrow> mvcc_view"
  assumes valid_view_ok: "valid b \<Longrightarrow> view_ok (view b)"
    and get_committed_versions_law:
      "valid b \<Longrightarrow> get_committed_versions B b k = Inr vs \<Longrightarrow> vs = version_list k (vers (view b) k)"
    and get_latest_committed_law:
      "valid b \<Longrightarrow> get_latest_committed B b k = Inr r \<Longrightarrow>
       r = map_option (\<lambda>t. as_version k (t, the (vers (view b) k t))) (newest_ts (vers (view b) k))"
    and get_visible_committed_law:
      "valid b \<Longrightarrow> get_visible_committed B b k ts = Inr r \<Longrightarrow>
       r = map_option (as_version k) (visible (vers (view b) k) ts)"
    and get_latest_commit_ts_law:
      "valid b \<Longrightarrow> get_latest_commit_ts B b k = Inr lt \<Longrightarrow> lt = newest_ts (vers (view b) k)"
    and get_intent_law: "valid b \<Longrightarrow> get_intent B b k = Inr i \<Longrightarrow> i = locks (view b) k"
    and all_keys_law:
      "valid b \<Longrightarrow> all_keys B b = Inr ks \<Longrightarrow> ks = sorted_list_of_set (view_keys (view b))"
    and keys_from_law:
      "valid b \<Longrightarrow> keys_from B b start n = Inr ks \<Longrightarrow> ks = v_keys_from (view b) start (unat n)"
    and keys_from_prefix_law:
      "valid b \<Longrightarrow> keys_from_prefix B b p start n = Inr ks \<Longrightarrow>
       ks = v_keys_from_prefix (view b) p start (unat n)"
    and get_committed_timestamps_before_law:
      "valid b \<Longrightarrow> get_committed_timestamps_before B b k ts n = Inr tss \<Longrightarrow>
       tss = take (unat n) (older_desc (vers (view b) k) ts)"

text \<open>Writes: every mutating method is an atomic step to the specified view.\<close>

locale backend_contract = backend_reads +
  assumes put_intent_law:
      "valid b \<Longrightarrow> atomic_step valid view b (put_intent B b i) (v_put_intent i (view b))"
    and remove_intent_law:
      "valid b \<Longrightarrow>
       atomic_step valid view b (remove_intent B b k txn s) (v_remove_intent (k, txn, s) (view b))"
    and remove_intent_result:
      "valid b \<Longrightarrow> fst (remove_intent B b k txn s) = Inr x \<Longrightarrow> x = owns (view b) k txn s"
    and put_committed_law:
      "valid b \<Longrightarrow> atomic_step valid view b (put_committed B b c) (v_put_committed c (view b))"
    and put_committed_batch_law:
      "valid b \<Longrightarrow>
       atomic_step valid view b (put_committed_batch B b cs) (fold v_put_committed cs (view b))"
    and remove_committed_version_law:
      "valid b \<Longrightarrow>
       atomic_step valid view b (remove_committed_version B b k t) (v_remove_versions k {t} (view b))"
    and put_intents_batch_law:
      "valid b \<Longrightarrow> atomic_step valid view b (put_intents_batch B b is) (fold v_put_intent is (view b))"
    and commit_intents_batch_law:
      "valid b \<Longrightarrow>
       atomic_step valid view b (commit_intents_batch B b cs rs)
         (fold v_remove_intent rs (fold v_put_committed cs (view b)))"
    and remove_intents_batch_law:
      "valid b \<Longrightarrow>
       atomic_step valid view b (remove_intents_batch B b rs) (fold v_remove_intent rs (view b))"
    and collapse_tombstone_law:
      "valid b \<Longrightarrow>
       atomic_step valid view b (collapse_tombstone B b k t tss)
         (v_remove_versions k (insert t (set tss)) (view b))"

text \<open>
  A backend whose committed-version methods never fail. Whether it stores intents is left open: the
  default intent methods keep the contract by refusing. A prefix scan with an empty prefix or a
  start key outside the prefix is refused (unless it asks for no key at all), every other one is
  answered.
\<close>

definition bad_prefix_scan :: "key \<Rightarrow> key option \<Rightarrow> bool" where
  "bad_prefix_scan p start \<longleftrightarrow> p = [] \<or> (\<exists>s. start = Some s \<and> \<not> prefix p s)"

locale committed_store = backend_contract +
  assumes get_committed_versions_total: "valid b \<Longrightarrow> \<not> isl (get_committed_versions B b k)"
    and get_latest_committed_total: "valid b \<Longrightarrow> \<not> isl (get_latest_committed B b k)"
    and get_visible_committed_total: "valid b \<Longrightarrow> \<not> isl (get_visible_committed B b k ts)"
    and get_latest_commit_ts_total: "valid b \<Longrightarrow> \<not> isl (get_latest_commit_ts B b k)"
    and all_keys_total: "valid b \<Longrightarrow> \<not> isl (all_keys B b)"
    and keys_from_total: "valid b \<Longrightarrow> \<not> isl (keys_from B b start n)"
    and keys_from_prefix_total:
      "valid b \<Longrightarrow> \<not> bad_prefix_scan p start \<Longrightarrow> \<not> isl (keys_from_prefix B b p start n)"
    and keys_from_prefix_refuses:
      "valid b \<Longrightarrow> bad_prefix_scan p start \<Longrightarrow> n \<noteq> 0 \<Longrightarrow> isl (keys_from_prefix B b p start n)"
    and get_committed_timestamps_before_total:
      "valid b \<Longrightarrow> \<not> isl (get_committed_timestamps_before B b k ts n)"
    and put_committed_total: "valid b \<Longrightarrow> \<not> isl (fst (put_committed B b c))"
    and put_committed_batch_total: "valid b \<Longrightarrow> \<not> isl (fst (put_committed_batch B b cs))"
    and remove_committed_version_total: "valid b \<Longrightarrow> \<not> isl (fst (remove_committed_version B b k t))"
    and collapse_tombstone_total: "valid b \<Longrightarrow> \<not> isl (fst (collapse_tombstone B b k t tss))"

text \<open>
  A backend that stores intents as well and never fails, as the in-memory one: every call succeeds but
  the prefix scans that the trait tells implementors to refuse.
\<close>

locale total_backend = committed_store +
  assumes get_intent_total: "valid b \<Longrightarrow> \<not> isl (get_intent B b k)"
    and put_intent_total: "valid b \<Longrightarrow> \<not> isl (fst (put_intent B b i))"
    and remove_intent_total: "valid b \<Longrightarrow> \<not> isl (fst (remove_intent B b k txn s))"
    and put_intents_batch_total: "valid b \<Longrightarrow> \<not> isl (fst (put_intents_batch B b is))"
    and commit_intents_batch_total: "valid b \<Longrightarrow> \<not> isl (fst (commit_intents_batch B b cs rs))"
    and remove_intents_batch_total: "valid b \<Longrightarrow> \<not> isl (fst (remove_intents_batch B b rs))"

text \<open>
  A backend on which the calls that garbage collection makes do not fail; writes of a client may. It is what
  collection needs in order to succeed, and less than a backend that never fails.
\<close>

locale history_store = backend_contract +
  assumes history_reads:
      "valid b \<Longrightarrow> \<not> isl (get_intent B b k)"
      "valid b \<Longrightarrow> \<not> isl (get_visible_committed B b k ts)"
      "valid b \<Longrightarrow> \<not> isl (get_latest_commit_ts B b k)"
      "valid b \<Longrightarrow> \<not> isl (all_keys B b)"
      "valid b \<Longrightarrow> \<not> isl (keys_from B b start n)"
      "valid b \<Longrightarrow> \<not> isl (get_committed_timestamps_before B b k ts n)"
    and history_removals:
      "valid b \<Longrightarrow> \<not> isl (fst (remove_committed_version B b k t))"
      "valid b \<Longrightarrow> \<not> isl (fst (collapse_tombstone B b k t tss))"

sublocale total_backend \<subseteq> history_store
  by unfold_locales
    (simp_all add: get_intent_total get_visible_committed_total get_latest_commit_ts_total all_keys_total
      keys_from_total get_committed_timestamps_before_total remove_committed_version_total collapse_tombstone_total)

section \<open>Consequences of the contract\<close>

lemma atomic_step_valid: "atomic_step valid view b (r, b') v' \<Longrightarrow> valid b'"
  by (simp add: atomic_step_def)

lemma atomic_step_Ok: "atomic_step valid view b (Inr x, b') v' \<Longrightarrow> view b' = v'"
  by (simp add: atomic_step_def)

lemma atomic_step_Err: "atomic_step valid view b (Inl e, b') v' \<Longrightarrow> view b' = view b"
  by (simp add: atomic_step_def)

lemma not_isl_Inr: "\<not> isl r \<Longrightarrow> (\<And>x. r = Inr x \<Longrightarrow> x = y) \<Longrightarrow> r = Inr y"
  by (cases r) auto

context committed_store
begin

lemma get_committed_versions_eq:
  "valid b \<Longrightarrow> get_committed_versions B b k = Inr (version_list k (vers (view b) k))"
  by (rule not_isl_Inr [OF get_committed_versions_total get_committed_versions_law])

lemma get_visible_committed_eq:
  "valid b \<Longrightarrow>
   get_visible_committed B b k ts = Inr (map_option (as_version k) (visible (vers (view b) k) ts))"
  by (rule not_isl_Inr [OF get_visible_committed_total get_visible_committed_law])

lemma get_latest_commit_ts_eq:
  "valid b \<Longrightarrow> get_latest_commit_ts B b k = Inr (newest_ts (vers (view b) k))"
  by (rule not_isl_Inr [OF get_latest_commit_ts_total get_latest_commit_ts_law])

lemma all_keys_eq: "valid b \<Longrightarrow> all_keys B b = Inr (sorted_list_of_set (view_keys (view b)))"
  by (rule not_isl_Inr [OF all_keys_total all_keys_law])

lemma keys_from_eq:
  "valid b \<Longrightarrow> keys_from B b start n = Inr (v_keys_from (view b) start (unat n))"
  by (rule not_isl_Inr [OF keys_from_total keys_from_law])

lemma get_committed_timestamps_before_eq:
  "valid b \<Longrightarrow>
   get_committed_timestamps_before B b k ts n = Inr (take (unat n) (older_desc (vers (view b) k) ts))"
  by (rule not_isl_Inr [OF get_committed_timestamps_before_total get_committed_timestamps_before_law])

lemma get_latest_committed_eq:
  "valid b \<Longrightarrow> get_latest_committed B b k =
     Inr (map_option (\<lambda>t. as_version k (t, the (vers (view b) k t))) (newest_ts (vers (view b) k)))"
  by (rule not_isl_Inr [OF get_latest_committed_total get_latest_committed_law])

lemma keys_from_prefix_eq:
  assumes "valid b" and "\<not> bad_prefix_scan p start"
  shows "keys_from_prefix B b p start n = Inr (v_keys_from_prefix (view b) p start (unat n))"
  using assms by (intro not_isl_Inr) (simp_all add: keys_from_prefix_total keys_from_prefix_law)

end

context history_store
begin

lemma history_answers:
  assumes "valid b"
  shows "get_intent B b k = Inr (locks (view b) k)"
    and "get_visible_committed B b k ts = Inr (map_option (as_version k) (visible (vers (view b) k) ts))"
    and "get_latest_commit_ts B b k = Inr (newest_ts (vers (view b) k))"
    and "all_keys B b = Inr (sorted_list_of_set (view_keys (view b)))"
    and "keys_from B b start n = Inr (v_keys_from (view b) start (unat n))"
    and "get_committed_timestamps_before B b k ts n = Inr (take (unat n) (older_desc (vers (view b) k) ts))"
  using assms
  by (auto intro!: not_isl_Inr simp: history_reads get_intent_law get_visible_committed_law get_latest_commit_ts_law
      all_keys_law keys_from_law get_committed_timestamps_before_law)

end

context total_backend
begin

lemma get_intent_eq: "valid b \<Longrightarrow> get_intent B b k = Inr (locks (view b) k)"
  by (rule not_isl_Inr [OF get_intent_total get_intent_law])

end

end
