(* ===== verification/Mvcc_Errors.thy ===== *)
theory Mvcc_Errors
  imports Mvcc_Types
begin

text \<open>
  The error enums of \<open>error.rs\<close>, one datatype each with the variants in source order. Variant
  names recur between the enums, so uses are qualified: \<open>prewrite_error.Backend\<close>,
  \<open>commit_error.Backend\<close>. A backend reports failure as a \<open>String\<close>.
\<close>

datatype read_error = Backend string

datatype prewrite_error =
    KeyLocked txn_id
  | WriteConflict
  | Backend string
  | IntentAlreadyExists

datatype commit_error =
    IntentNotFound
  | TxnIdMismatch
  | StartTsMismatch
  | InvalidCommitTimestamp timestamp timestamp
  | DuplicateCommitTimestamp timestamp
  | CommitTsTooOld timestamp timestamp
  | CommitTsTooEarly timestamp timestamp
  | Backend string

datatype abort_error = Backend string

datatype gc_error =
    Backend string
  | InvalidGcBudget
  | InvalidKeyGcBudget

datatype codec_error =
    Encode string
  | Decode string

datatype batch_error =
    EmptyBatch
  | InvalidCommitTimestamp timestamp timestamp
  | CommitTsTooOld key timestamp timestamp
  | NoReadGuards
  | DuplicateKeyInBatch key
  | KeyLocked key txn_id
  | GuardFailedNewerVersion key timestamp timestamp
  | GuardFailedVersionMismatch key "timestamp option" "timestamp option"
  | GuardFailedValueMismatch key
  | Backend string

datatype batch_prewrite_error =
    EmptyBatch
  | DuplicateKeyInBatch key
  | KeyLocked key txn_id
  | WriteConflict key
  | IntentAlreadyExists key
  | PartialBatchReplay
  | Backend string

datatype batch_commit_error =
    EmptyBatch
  | DuplicateKeyInBatch key
  | IntentNotFound key
  | TxnIdMismatch key
  | StartTsMismatch key
  | InvalidCommitTimestamp timestamp timestamp
  | CommitTsTooEarly key timestamp timestamp
  | CommitTsTooOld key timestamp timestamp
  | Backend string

datatype batch_abort_error =
    DuplicateKeyInBatch key
  | Backend string

end
