(* ===== verification/Mvcc_Engine.thy ===== *)
theory Mvcc_Engine
  imports Mvcc_Backend Mvcc_Errors
begin

text \<open>
  The transactional half of \<open>MvccEngine\<close> (\<open>engine.rs\<close>): reads, single-key intents, intent
  batches, direct and guarded batches. The engine struct has one field, the backend, so its state
  is the backend's; every operation takes the backend's method table first. An operation on
  \<open>&mut self\<close> returns its result and the state it leaves, on every branch.
\<close>

type_synonym 'b mvcc_engine = 'b

section \<open>Reads\<close>

definition read :: "'b backend \<Rightarrow> 'b mvcc_engine \<Rightarrow> key \<Rightarrow> timestamp \<Rightarrow> read_error + val option" where
  "read B e key read_ts =
     res_bind (map_err read_error.Backend (get_visible_committed B e key read_ts))
       (\<lambda>version. Ok (Option.bind version cv_value))"

definition read_with_version ::
  "'b backend \<Rightarrow> 'b mvcc_engine \<Rightarrow> key \<Rightarrow> timestamp \<Rightarrow> read_error + (timestamp \<times> val option) option" where
  "read_with_version B e key read_ts =
     res_bind (map_err read_error.Backend (get_visible_committed B e key read_ts))
       (\<lambda>version. Ok (map_option (\<lambda>v. (cv_commit_ts v, cv_value v)) version))"

definition read_own_write ::
  "'b backend \<Rightarrow> 'b mvcc_engine \<Rightarrow> key \<Rightarrow> txn_id \<Rightarrow> timestamp \<Rightarrow> timestamp \<Rightarrow> read_error + val option" where
  "read_own_write B e key txn_id start_ts read_ts =
     res_bind (map_err read_error.Backend (get_intent B e key)) (\<lambda>found.
       case found of
         Some intent \<Rightarrow>
           if intent_txn_id intent = txn_id \<and> intent_start_ts intent = start_ts
           then Ok (mutation_value (intent_mutation intent))
           else read B e key read_ts
       | None \<Rightarrow> read B e key read_ts)"

section \<open>Single-key intents\<close>

definition prewrite ::
  "'b backend \<Rightarrow> 'b mvcc_engine \<Rightarrow> txn_id \<Rightarrow> timestamp \<Rightarrow> key \<Rightarrow> mutation \<Rightarrow>
   (prewrite_error + unit) \<times> 'b mvcc_engine" where
  "prewrite B e txn_id start_ts key mutation =
     (case map_err prewrite_error.Backend (get_intent B e key) of
        Inl err \<Rightarrow> (Err err, e)
      | Inr (Some intent) \<Rightarrow>
          if intent_txn_id intent \<noteq> txn_id
            then (Err (prewrite_error.KeyLocked (intent_txn_id intent)), e)
          else if intent_start_ts intent \<noteq> start_ts
            then (Err prewrite_error.IntentAlreadyExists, e)
          else if intent_mutation intent \<noteq> mutation
            then (Err prewrite_error.IntentAlreadyExists, e)
          else (Ok (), e)
      | Inr None \<Rightarrow>
          (case map_err prewrite_error.Backend (get_latest_commit_ts B e key) of
             Inl err \<Rightarrow> (Err err, e)
           | Inr latest \<Rightarrow>
               if (case latest of Some latest_ts \<Rightarrow> latest_ts > start_ts | None \<Rightarrow> False)
                 then (Err prewrite_error.WriteConflict, e)
               else
                 (case put_intent B e
                    \<lparr>intent_key = key, intent_txn_id = txn_id, intent_start_ts = start_ts,
                     intent_mutation = mutation, intent_min_commit_ts = None\<rparr> of
                    (r, e') \<Rightarrow> (map_err prewrite_error.Backend r, e'))))"

text \<open>The tail of \<open>commit\<close>: the check against the latest committed version, then the transition.\<close>

definition commit_apply ::
  "'b backend \<Rightarrow> 'b mvcc_engine \<Rightarrow> txn_id \<Rightarrow> key \<Rightarrow> timestamp \<Rightarrow> timestamp \<Rightarrow> intent \<Rightarrow>
   (commit_error + unit) \<times> 'b mvcc_engine" where
  "commit_apply B e txn_id key start_ts commit_ts intent =
     (case map_err commit_error.Backend (get_latest_commit_ts B e key) of
        Inl err \<Rightarrow> (Err err, e)
      | Inr latest \<Rightarrow>
          if (case latest of Some latest_ts \<Rightarrow> commit_ts \<le> latest_ts | None \<Rightarrow> False) then
            (if latest = Some commit_ts
             then (Err (commit_error.DuplicateCommitTimestamp commit_ts), e)
             else (Err (commit_error.CommitTsTooOld commit_ts (the latest)), e))
          else
            (case commit_intents_batch B e
               [\<lparr>cv_key = key, cv_commit_ts = commit_ts,
                 cv_value = mutation_value (intent_mutation intent)\<rparr>]
               [(key, txn_id, start_ts)] of
               (r, e') \<Rightarrow> (map_err commit_error.Backend r, e')))"

definition commit ::
  "'b backend \<Rightarrow> 'b mvcc_engine \<Rightarrow> txn_id \<Rightarrow> key \<Rightarrow> timestamp \<Rightarrow> timestamp \<Rightarrow>
   (commit_error + unit) \<times> 'b mvcc_engine" where
  "commit B e txn_id key start_ts commit_ts =
     (case map_err commit_error.Backend (get_intent B e key) of
        Inl err \<Rightarrow> (Err err, e)
      | Inr None \<Rightarrow> (Err commit_error.IntentNotFound, e)
      | Inr (Some intent) \<Rightarrow>
          if intent_txn_id intent \<noteq> txn_id then (Err commit_error.TxnIdMismatch, e)
          else if intent_start_ts intent \<noteq> start_ts then (Err commit_error.StartTsMismatch, e)
          else if commit_ts \<le> start_ts
            then (Err (commit_error.InvalidCommitTimestamp start_ts commit_ts), e)
          else
            (case intent_min_commit_ts intent of
               Some min_ts \<Rightarrow>
                 if commit_ts < min_ts
                 then (Err (commit_error.CommitTsTooEarly commit_ts min_ts), e)
                 else commit_apply B e txn_id key start_ts commit_ts intent
             | None \<Rightarrow> commit_apply B e txn_id key start_ts commit_ts intent))"

definition abort ::
  "'b backend \<Rightarrow> 'b mvcc_engine \<Rightarrow> txn_id \<Rightarrow> key \<Rightarrow> timestamp \<Rightarrow>
   (abort_error + unit) \<times> 'b mvcc_engine" where
  "abort B e txn_id key start_ts =
     (case remove_intent B e key txn_id start_ts of
        (r, e') \<Rightarrow> (res_bind (map_err abort_error.Backend r) (\<lambda>removed. Ok ()), e'))"

section \<open>Intent batches\<close>

text \<open>
  The loop over a fresh \<open>HashSet\<close> that all batch operations start with: the first key that
  is already in the set, if any.
\<close>

fun find_duplicate :: "key set \<Rightarrow> key list \<Rightarrow> key option" where
  "find_duplicate key_set [] = None"
| "find_duplicate key_set (k # ks) =
     (if k \<in> key_set then Some k else find_duplicate (insert k key_set) ks)"

definition write_mutation :: "physical_write \<Rightarrow> mutation" where
  "write_mutation w = (case pw_value w of Some v \<Rightarrow> Put v | None \<Rightarrow> Delete)"

fun prewrite_batch_validate ::
  "'b backend \<Rightarrow> 'b mvcc_engine \<Rightarrow> txn_id \<Rightarrow> timestamp \<Rightarrow> physical_write list \<Rightarrow> nat \<Rightarrow>
   batch_prewrite_error + nat" where
  "prewrite_batch_validate B e txn_id start_ts [] existing_count = Ok existing_count"
| "prewrite_batch_validate B e txn_id start_ts (w # ws) existing_count =
     (case map_err batch_prewrite_error.Backend (get_intent B e (pw_key w)) of
        Inl err \<Rightarrow> Err err
      | Inr (Some intent) \<Rightarrow>
          if intent_txn_id intent \<noteq> txn_id
            then Err (batch_prewrite_error.KeyLocked (pw_key w) (intent_txn_id intent))
          else if intent_start_ts intent \<noteq> start_ts \<or> intent_mutation intent \<noteq> write_mutation w
            then Err (batch_prewrite_error.IntentAlreadyExists (pw_key w))
          else prewrite_batch_validate B e txn_id start_ts ws (existing_count + 1)
      | Inr None \<Rightarrow>
          (case map_err batch_prewrite_error.Backend (get_latest_commit_ts B e (pw_key w)) of
             Inl err \<Rightarrow> Err err
           | Inr latest \<Rightarrow>
               if (case latest of Some latest_ts \<Rightarrow> latest_ts > start_ts | None \<Rightarrow> False)
               then Err (batch_prewrite_error.WriteConflict (pw_key w))
               else prewrite_batch_validate B e txn_id start_ts ws existing_count))"

definition write_intent :: "txn_id \<Rightarrow> timestamp \<Rightarrow> physical_write \<Rightarrow> intent" where
  "write_intent txn_id start_ts w =
     \<lparr>intent_key = pw_key w, intent_txn_id = txn_id, intent_start_ts = start_ts,
      intent_mutation = write_mutation w, intent_min_commit_ts = None\<rparr>"

definition prewrite_batch ::
  "'b backend \<Rightarrow> 'b mvcc_engine \<Rightarrow> txn_id \<Rightarrow> timestamp \<Rightarrow> physical_write list \<Rightarrow>
   (batch_prewrite_error + unit) \<times> 'b mvcc_engine" where
  "prewrite_batch B e txn_id start_ts writes =
     (if writes = [] then (Err batch_prewrite_error.EmptyBatch, e)
      else
        (case find_duplicate {} (map pw_key writes) of
           Some k \<Rightarrow> (Err (batch_prewrite_error.DuplicateKeyInBatch k), e)
         | None \<Rightarrow>
             (case prewrite_batch_validate B e txn_id start_ts writes 0 of
                Inl err \<Rightarrow> (Err err, e)
              | Inr existing_count \<Rightarrow>
                  if existing_count = length writes then (Ok (), e)
                  else if existing_count > 0 then (Err batch_prewrite_error.PartialBatchReplay, e)
                  else
                    (case put_intents_batch B e (map (write_intent txn_id start_ts) writes) of
                       (r, e') \<Rightarrow> (map_err batch_prewrite_error.Backend r, e')))))"

text \<open>One round of the validation loop of \<open>commit_batch\<close>: the version to be committed.\<close>

definition commit_batch_key ::
  "'b backend \<Rightarrow> 'b mvcc_engine \<Rightarrow> txn_id \<Rightarrow> timestamp \<Rightarrow> timestamp \<Rightarrow> key \<Rightarrow>
   batch_commit_error + committed_version" where
  "commit_batch_key B e txn_id start_ts commit_ts key =
     (case map_err batch_commit_error.Backend (get_intent B e key) of
        Inl err \<Rightarrow> Err err
      | Inr None \<Rightarrow> Err (batch_commit_error.IntentNotFound key)
      | Inr (Some intent) \<Rightarrow>
          if intent_txn_id intent \<noteq> txn_id then Err (batch_commit_error.TxnIdMismatch key)
          else if intent_start_ts intent \<noteq> start_ts then Err (batch_commit_error.StartTsMismatch key)
          else if (case intent_min_commit_ts intent of
                     Some min_ts \<Rightarrow> commit_ts < min_ts | None \<Rightarrow> False)
            then Err (batch_commit_error.CommitTsTooEarly key commit_ts
                        (the (intent_min_commit_ts intent)))
          else
            (case map_err batch_commit_error.Backend (get_latest_commit_ts B e key) of
               Inl err \<Rightarrow> Err err
             | Inr latest \<Rightarrow>
                 if (case latest of Some latest_ts \<Rightarrow> commit_ts \<le> latest_ts | None \<Rightarrow> False)
                 then Err (batch_commit_error.CommitTsTooOld key commit_ts (the latest))
                 else Ok \<lparr>cv_key = key, cv_commit_ts = commit_ts,
                          cv_value = mutation_value (intent_mutation intent)\<rparr>))"

fun commit_batch_validate ::
  "'b backend \<Rightarrow> 'b mvcc_engine \<Rightarrow> txn_id \<Rightarrow> timestamp \<Rightarrow> timestamp \<Rightarrow> key list \<Rightarrow>
   batch_commit_error + committed_version list" where
  "commit_batch_validate B e txn_id start_ts commit_ts [] = Ok []"
| "commit_batch_validate B e txn_id start_ts commit_ts (k # ks) =
     res_bind (commit_batch_key B e txn_id start_ts commit_ts k) (\<lambda>version.
     res_bind (commit_batch_validate B e txn_id start_ts commit_ts ks) (\<lambda>commits.
       Ok (version # commits)))"

definition commit_batch ::
  "'b backend \<Rightarrow> 'b mvcc_engine \<Rightarrow> txn_id \<Rightarrow> timestamp \<Rightarrow> timestamp \<Rightarrow> key list \<Rightarrow>
   (batch_commit_error + unit) \<times> 'b mvcc_engine" where
  "commit_batch B e txn_id start_ts commit_ts keys =
     (if keys = [] then (Err batch_commit_error.EmptyBatch, e)
      else
        (case find_duplicate {} keys of
           Some k \<Rightarrow> (Err (batch_commit_error.DuplicateKeyInBatch k), e)
         | None \<Rightarrow>
             if commit_ts \<le> start_ts
             then (Err (batch_commit_error.InvalidCommitTimestamp start_ts commit_ts), e)
             else
               (case commit_batch_validate B e txn_id start_ts commit_ts keys of
                  Inl err \<Rightarrow> (Err err, e)
                | Inr commits \<Rightarrow>
                    (case commit_intents_batch B e commits (map (\<lambda>k. (k, txn_id, start_ts)) keys) of
                       (r, e') \<Rightarrow> (map_err batch_commit_error.Backend r, e')))))"

fun abort_batch_collect ::
  "'b backend \<Rightarrow> 'b mvcc_engine \<Rightarrow> txn_id \<Rightarrow> timestamp \<Rightarrow> key list \<Rightarrow>
   batch_abort_error + (key \<times> txn_id \<times> timestamp) list" where
  "abort_batch_collect B e txn_id start_ts [] = Ok []"
| "abort_batch_collect B e txn_id start_ts (k # ks) =
     res_bind (map_err batch_abort_error.Backend (get_intent B e k)) (\<lambda>found.
     res_bind (abort_batch_collect B e txn_id start_ts ks) (\<lambda>removed.
       Ok (case found of
             Some intent \<Rightarrow>
               if intent_txn_id intent = txn_id \<and> intent_start_ts intent = start_ts
               then (k, txn_id, start_ts) # removed else removed
           | None \<Rightarrow> removed)))"

definition abort_batch ::
  "'b backend \<Rightarrow> 'b mvcc_engine \<Rightarrow> txn_id \<Rightarrow> timestamp \<Rightarrow> key list \<Rightarrow>
   (batch_abort_error + unit) \<times> 'b mvcc_engine" where
  "abort_batch B e txn_id start_ts keys =
     (if keys = [] then (Ok (), e)
      else
        (case find_duplicate {} keys of
           Some k \<Rightarrow> (Err (batch_abort_error.DuplicateKeyInBatch k), e)
         | None \<Rightarrow>
             (case abort_batch_collect B e txn_id start_ts keys of
                Inl err \<Rightarrow> (Err err, e)
              | Inr removed_intents \<Rightarrow>
                  (case remove_intents_batch B e removed_intents of
                     (r, e') \<Rightarrow> (map_err batch_abort_error.Backend r, e')))))"

section \<open>Direct and guarded batches\<close>

text \<open>The write validation both batch kinds run before applying anything.\<close>

fun validate_writes ::
  "'b backend \<Rightarrow> 'b mvcc_engine \<Rightarrow> timestamp \<Rightarrow> physical_write list \<Rightarrow> batch_error + unit" where
  "validate_writes B e commit_ts [] = Ok ()"
| "validate_writes B e commit_ts (w # ws) =
     (case map_err batch_error.Backend (get_intent B e (pw_key w)) of
        Inl err \<Rightarrow> Err err
      | Inr (Some intent) \<Rightarrow> Err (batch_error.KeyLocked (pw_key w) (intent_txn_id intent))
      | Inr None \<Rightarrow>
          (case map_err batch_error.Backend (get_latest_commit_ts B e (pw_key w)) of
             Inl err \<Rightarrow> Err err
           | Inr latest \<Rightarrow>
               if (case latest of Some latest_ts \<Rightarrow> commit_ts \<le> latest_ts | None \<Rightarrow> False)
               then Err (batch_error.CommitTsTooOld (pw_key w) commit_ts (the latest))
               else validate_writes B e commit_ts ws))"

definition write_version :: "timestamp \<Rightarrow> physical_write \<Rightarrow> committed_version" where
  "write_version commit_ts w = \<lparr>cv_key = pw_key w, cv_commit_ts = commit_ts, cv_value = pw_value w\<rparr>"

definition apply_writes ::
  "'b backend \<Rightarrow> 'b mvcc_engine \<Rightarrow> timestamp \<Rightarrow> physical_write list \<Rightarrow>
   (batch_error + unit) \<times> 'b mvcc_engine" where
  "apply_writes B e commit_ts writes =
     (case put_committed_batch B e (map (write_version commit_ts) writes) of
        (r, e') \<Rightarrow> (map_err batch_error.Backend r, e'))"

definition apply_direct_batch ::
  "'b backend \<Rightarrow> 'b mvcc_engine \<Rightarrow> timestamp \<Rightarrow> physical_write list \<Rightarrow>
   (batch_error + unit) \<times> 'b mvcc_engine" where
  "apply_direct_batch B e commit_ts writes =
     (if writes = [] then (Err batch_error.EmptyBatch, e)
      else
        (case find_duplicate {} (map pw_key writes) of
           Some k \<Rightarrow> (Err (batch_error.DuplicateKeyInBatch k), e)
         | None \<Rightarrow>
             (case validate_writes B e commit_ts writes of
                Inl err \<Rightarrow> (Err err, e)
              | Inr _ \<Rightarrow> apply_writes B e commit_ts writes)))"

text \<open>One round of the guard loop: the generic checks, then the comparison the guard asks for.\<close>

fun guard_compare :: "read_guard \<Rightarrow> committed_version option \<Rightarrow> batch_error + unit" where
  "guard_compare (ExpectedVersion key read_ts expected_commit_ts) visible_version =
     (if map_option cv_commit_ts visible_version \<noteq> expected_commit_ts
      then Err (batch_error.GuardFailedVersionMismatch key expected_commit_ts
                  (map_option cv_commit_ts visible_version))
      else Ok ())"
| "guard_compare (ExpectedValue key read_ts expected_value) visible_version =
     (if Option.bind visible_version cv_value \<noteq> expected_value
      then Err (batch_error.GuardFailedValueMismatch key) else Ok ())"

definition check_guard ::
  "'b backend \<Rightarrow> 'b mvcc_engine \<Rightarrow> timestamp \<Rightarrow> read_guard \<Rightarrow> batch_error + unit" where
  "check_guard B e commit_ts guard =
     (if commit_ts \<le> guard_read_ts guard
        then Err (batch_error.InvalidCommitTimestamp (guard_read_ts guard) commit_ts)
      else
        (case map_err batch_error.Backend (get_intent B e (guard_key guard)) of
           Inl err \<Rightarrow> Err err
         | Inr (Some intent) \<Rightarrow> Err (batch_error.KeyLocked (guard_key guard) (intent_txn_id intent))
         | Inr None \<Rightarrow>
             (case map_err batch_error.Backend (get_latest_commit_ts B e (guard_key guard)) of
                Inl err \<Rightarrow> Err err
              | Inr latest \<Rightarrow>
                  if (case latest of Some latest_ts \<Rightarrow> latest_ts > guard_read_ts guard | None \<Rightarrow> False)
                  then Err (batch_error.GuardFailedNewerVersion (guard_key guard)
                              (guard_read_ts guard) (the latest))
                  else
                    res_bind (map_err batch_error.Backend
                        (get_visible_committed B e (guard_key guard) (guard_read_ts guard)))
                      (guard_compare guard))))"

fun check_guards ::
  "'b backend \<Rightarrow> 'b mvcc_engine \<Rightarrow> timestamp \<Rightarrow> read_guard list \<Rightarrow> batch_error + unit" where
  "check_guards B e commit_ts [] = Ok ()"
| "check_guards B e commit_ts (g # gs) =
     res_bind (check_guard B e commit_ts g) (\<lambda>_. check_guards B e commit_ts gs)"

definition apply_guarded_batch ::
  "'b backend \<Rightarrow> 'b mvcc_engine \<Rightarrow> timestamp \<Rightarrow> read_guard list \<Rightarrow> physical_write list \<Rightarrow>
   (batch_error + unit) \<times> 'b mvcc_engine" where
  "apply_guarded_batch B e commit_ts guards writes =
     (if writes = [] then (Err batch_error.EmptyBatch, e)
      else if guards = [] then (Err batch_error.NoReadGuards, e)
      else
        (case find_duplicate {} (map pw_key writes) of
           Some k \<Rightarrow> (Err (batch_error.DuplicateKeyInBatch k), e)
         | None \<Rightarrow>
             (case check_guards B e commit_ts guards of
                Inl err \<Rightarrow> (Err err, e)
              | Inr _ \<Rightarrow>
                  (case validate_writes B e commit_ts writes of
                     Inl err \<Rightarrow> (Err err, e)
                   | Inr _ \<Rightarrow> apply_writes B e commit_ts writes))))"

end
