(* ===== verification/Mvcc_Spec.thy ===== *)
theory Mvcc_Spec
  imports Mvcc_Engine
begin

text \<open>
  What the transactional operations promise, over the abstract view alone: the exact outcome of
  a single-key operation, and for a batch the condition under which it is accepted, the view it
  then leaves, and what each rejection says about the state. The engine is proved to implement
  these on every backend that keeps the contract.
\<close>

section \<open>Single-key operations\<close>

definition above_all :: "history \<Rightarrow> timestamp \<Rightarrow> bool" where
  "above_all h c \<longleftrightarrow> (\<forall>t\<in>dom h. t < c)"

definition no_newer :: "history \<Rightarrow> timestamp \<Rightarrow> bool" where
  "no_newer h s \<longleftrightarrow> (\<forall>t\<in>dom h. t \<le> s)"

definition spec_prewrite ::
  "mvcc_view \<Rightarrow> txn_id \<Rightarrow> timestamp \<Rightarrow> key \<Rightarrow> mutation \<Rightarrow> (prewrite_error + unit) \<times> mvcc_view" where
  "spec_prewrite v txn s k m =
     (case locks v k of
        Some i \<Rightarrow>
          (if intent_txn_id i \<noteq> txn then Err (prewrite_error.KeyLocked (intent_txn_id i))
           else if intent_start_ts i = s \<and> intent_mutation i = m then Ok ()
           else Err prewrite_error.IntentAlreadyExists, v)
      | None \<Rightarrow>
          if no_newer (vers v k) s
          then (Ok (), v_put_intent \<lparr>intent_key = k, intent_txn_id = txn, intent_start_ts = s,
                         intent_mutation = m, intent_min_commit_ts = None\<rparr> v)
          else (Err prewrite_error.WriteConflict, v))"

text \<open>The view after the intents of \<open>ks\<close> have become versions at \<open>c\<close>.\<close>

definition commit_view :: "mvcc_view \<Rightarrow> timestamp \<Rightarrow> key set \<Rightarrow> mvcc_view" where
  "commit_view v c ks =
     \<lparr>vers = (\<lambda>k. if k \<in> ks
                then (vers v k)(c \<mapsto> mutation_value (intent_mutation (the (locks v k))))
                else vers v k),
      locks = (\<lambda>k. if k \<in> ks then None else locks v k)\<rparr>"

definition spec_commit ::
  "mvcc_view \<Rightarrow> txn_id \<Rightarrow> key \<Rightarrow> timestamp \<Rightarrow> timestamp \<Rightarrow> (commit_error + unit) \<times> mvcc_view" where
  "spec_commit v txn k s c =
     (case locks v k of
        None \<Rightarrow> (Err commit_error.IntentNotFound, v)
      | Some i \<Rightarrow>
          if intent_txn_id i \<noteq> txn then (Err commit_error.TxnIdMismatch, v)
          else if intent_start_ts i \<noteq> s then (Err commit_error.StartTsMismatch, v)
          else if c \<le> s then (Err (commit_error.InvalidCommitTimestamp s c), v)
          else if \<exists>m. intent_min_commit_ts i = Some m \<and> c < m
            then (Err (commit_error.CommitTsTooEarly c (the (intent_min_commit_ts i))), v)
          else if c \<in> dom (vers v k) \<and> no_newer (vers v k) c
            then (Err (commit_error.DuplicateCommitTimestamp c), v)
          else if \<not> above_all (vers v k) c
            then (Err (commit_error.CommitTsTooOld c (Max (dom (vers v k)))), v)
          else (Ok (), commit_view v c {k}))"

definition spec_abort :: "mvcc_view \<Rightarrow> txn_id \<Rightarrow> key \<Rightarrow> timestamp \<Rightarrow> mvcc_view" where
  "spec_abort v txn k s = (if owns v k txn s then v\<lparr>locks := (locks v)(k := None)\<rparr> else v)"

section \<open>Batches\<close>

definition prewrite_batch_fresh :: "mvcc_view \<Rightarrow> timestamp \<Rightarrow> physical_write list \<Rightarrow> bool" where
  "prewrite_batch_fresh v s ws \<longleftrightarrow>
     ws \<noteq> [] \<and> distinct (map pw_key ws) \<and>
     (\<forall>w\<in>set ws. locks v (pw_key w) = None \<and> no_newer (vers v (pw_key w)) s)"

text \<open>The intent of a write that \<open>prewrite_batch\<close> would replay is already in place.\<close>

definition write_replays :: "mvcc_view \<Rightarrow> txn_id \<Rightarrow> timestamp \<Rightarrow> physical_write \<Rightarrow> bool" where
  "write_replays v txn s w \<longleftrightarrow>
     owns v (pw_key w) txn s \<and> intent_mutation (the (locks v (pw_key w))) = write_mutation w"

definition prewrite_batch_replay ::
  "mvcc_view \<Rightarrow> txn_id \<Rightarrow> timestamp \<Rightarrow> physical_write list \<Rightarrow> bool" where
  "prewrite_batch_replay v txn s ws \<longleftrightarrow>
     ws \<noteq> [] \<and> distinct (map pw_key ws) \<and>
     (\<forall>w\<in>set ws. write_replays v txn s w)"

fun prewrite_batch_reason ::
  "mvcc_view \<Rightarrow> txn_id \<Rightarrow> timestamp \<Rightarrow> physical_write list \<Rightarrow> batch_prewrite_error \<Rightarrow> bool" where
  "prewrite_batch_reason v txn s ws batch_prewrite_error.EmptyBatch \<longleftrightarrow> ws = []"
| "prewrite_batch_reason v txn s ws (batch_prewrite_error.DuplicateKeyInBatch k) \<longleftrightarrow>
     1 < count_list (map pw_key ws) k"
| "prewrite_batch_reason v txn s ws (batch_prewrite_error.KeyLocked k owner) \<longleftrightarrow>
     k \<in> pw_key ` set ws \<and> owner \<noteq> txn \<and> (\<exists>i. locks v k = Some i \<and> intent_txn_id i = owner)"
| "prewrite_batch_reason v txn s ws (batch_prewrite_error.WriteConflict k) \<longleftrightarrow>
     k \<in> pw_key ` set ws \<and> locks v k = None \<and> \<not> no_newer (vers v k) s"
| "prewrite_batch_reason v txn s ws (batch_prewrite_error.IntentAlreadyExists k) \<longleftrightarrow>
     (\<exists>w\<in>set ws. pw_key w = k \<and> \<not> write_replays v txn s w \<and>
        (\<exists>i. locks v k = Some i \<and> intent_txn_id i = txn))"
| "prewrite_batch_reason v txn s ws batch_prewrite_error.PartialBatchReplay \<longleftrightarrow>
     (\<exists>w\<in>set ws. write_replays v txn s w) \<and> (\<exists>w\<in>set ws. locks v (pw_key w) = None)"
| "prewrite_batch_reason v txn s ws (batch_prewrite_error.Backend msg) \<longleftrightarrow> False"

definition prewrite_view ::
  "mvcc_view \<Rightarrow> txn_id \<Rightarrow> timestamp \<Rightarrow> physical_write list \<Rightarrow> mvcc_view" where
  "prewrite_view v txn s ws =
     v\<lparr>locks := locks v ++ map_of (map (\<lambda>w. (pw_key w, write_intent txn s w)) ws)\<rparr>"

definition commit_batch_ok ::
  "mvcc_view \<Rightarrow> txn_id \<Rightarrow> timestamp \<Rightarrow> timestamp \<Rightarrow> key list \<Rightarrow> bool" where
  "commit_batch_ok v txn s c ks \<longleftrightarrow>
     ks \<noteq> [] \<and> distinct ks \<and> s < c \<and>
     (\<forall>k\<in>set ks. owns v k txn s \<and> above_all (vers v k) c \<and>
        (\<forall>m. intent_min_commit_ts (the (locks v k)) = Some m \<longrightarrow> m \<le> c))"

fun commit_batch_reason ::
  "mvcc_view \<Rightarrow> txn_id \<Rightarrow> timestamp \<Rightarrow> timestamp \<Rightarrow> key list \<Rightarrow> batch_commit_error \<Rightarrow> bool" where
  "commit_batch_reason v txn s c ks batch_commit_error.EmptyBatch \<longleftrightarrow> ks = []"
| "commit_batch_reason v txn s c ks (batch_commit_error.DuplicateKeyInBatch k) \<longleftrightarrow>
     1 < count_list ks k"
| "commit_batch_reason v txn s c ks (batch_commit_error.IntentNotFound k) \<longleftrightarrow>
     k \<in> set ks \<and> locks v k = None"
| "commit_batch_reason v txn s c ks (batch_commit_error.TxnIdMismatch k) \<longleftrightarrow>
     k \<in> set ks \<and> (\<exists>i. locks v k = Some i \<and> intent_txn_id i \<noteq> txn)"
| "commit_batch_reason v txn s c ks (batch_commit_error.StartTsMismatch k) \<longleftrightarrow>
     k \<in> set ks \<and> (\<exists>i. locks v k = Some i \<and> intent_start_ts i \<noteq> s)"
| "commit_batch_reason v txn s c ks (batch_commit_error.InvalidCommitTimestamp s' c') \<longleftrightarrow>
     s' = s \<and> c' = c \<and> c \<le> s"
| "commit_batch_reason v txn s c ks (batch_commit_error.CommitTsTooEarly k c' m) \<longleftrightarrow>
     k \<in> set ks \<and> c' = c \<and> c < m \<and> (\<exists>i. locks v k = Some i \<and> intent_min_commit_ts i = Some m)"
| "commit_batch_reason v txn s c ks (batch_commit_error.CommitTsTooOld k c' l) \<longleftrightarrow>
     k \<in> set ks \<and> c' = c \<and> c \<le> l \<and> l \<in> dom (vers v k) \<and> no_newer (vers v k) l"
| "commit_batch_reason v txn s c ks (batch_commit_error.Backend msg) \<longleftrightarrow> False"

definition abort_view :: "mvcc_view \<Rightarrow> txn_id \<Rightarrow> timestamp \<Rightarrow> key set \<Rightarrow> mvcc_view" where
  "abort_view v txn s ks =
     v\<lparr>locks := (\<lambda>k. if k \<in> ks \<and> owns v k txn s then None else locks v k)\<rparr>"

definition writes_ok :: "mvcc_view \<Rightarrow> timestamp \<Rightarrow> physical_write list \<Rightarrow> bool" where
  "writes_ok v c ws \<longleftrightarrow>
     ws \<noteq> [] \<and> distinct (map pw_key ws) \<and>
     (\<forall>w\<in>set ws. locks v (pw_key w) = None \<and> above_all (vers v (pw_key w)) c)"

definition write_view :: "mvcc_view \<Rightarrow> timestamp \<Rightarrow> physical_write list \<Rightarrow> mvcc_view" where
  "write_view v c ws =
     v\<lparr>vers := (\<lambda>k. case map_of (map (\<lambda>w. (pw_key w, pw_value w)) ws) k of
                 Some x \<Rightarrow> (vers v k)(c \<mapsto> x) | None \<Rightarrow> vers v k)\<rparr>"

fun guard_matches :: "mvcc_view \<Rightarrow> read_guard \<Rightarrow> bool" where
  "guard_matches v (ExpectedVersion k r expected) \<longleftrightarrow> map_option fst (visible (vers v k) r) = expected"
| "guard_matches v (ExpectedValue k r expected) \<longleftrightarrow> visible_value (vers v k) r = expected"

definition guard_holds :: "mvcc_view \<Rightarrow> timestamp \<Rightarrow> read_guard \<Rightarrow> bool" where
  "guard_holds v c g \<longleftrightarrow>
     guard_read_ts g < c \<and> locks v (guard_key g) = None \<and>
     no_newer (vers v (guard_key g)) (guard_read_ts g) \<and> guard_matches v g"

text \<open>What a rejected direct or guarded batch reports about the state it was rejected in.\<close>

fun batch_error_reason ::
  "mvcc_view \<Rightarrow> timestamp \<Rightarrow> read_guard list \<Rightarrow> physical_write list \<Rightarrow> batch_error \<Rightarrow> bool" where
  "batch_error_reason v c gs ws batch_error.EmptyBatch \<longleftrightarrow> ws = []"
| "batch_error_reason v c gs ws (batch_error.InvalidCommitTimestamp r c') \<longleftrightarrow>
     c' = c \<and> c \<le> r \<and> (\<exists>g\<in>set gs. guard_read_ts g = r)"
| "batch_error_reason v c gs ws (batch_error.CommitTsTooOld k c' l) \<longleftrightarrow>
     c' = c \<and> k \<in> pw_key ` set ws \<and> l \<in> dom (vers v k) \<and> no_newer (vers v k) l \<and> c \<le> l"
| "batch_error_reason v c gs ws batch_error.NoReadGuards \<longleftrightarrow> gs = []"
| "batch_error_reason v c gs ws (batch_error.DuplicateKeyInBatch k) \<longleftrightarrow>
     1 < count_list (map pw_key ws) k"
| "batch_error_reason v c gs ws (batch_error.KeyLocked k txn) \<longleftrightarrow>
     k \<in> pw_key ` set ws \<union> guard_key ` set gs \<and> (\<exists>i. locks v k = Some i \<and> intent_txn_id i = txn)"
| "batch_error_reason v c gs ws (batch_error.GuardFailedNewerVersion k r l) \<longleftrightarrow>
     (\<exists>g\<in>set gs. guard_key g = k \<and> guard_read_ts g = r) \<and>
     l \<in> dom (vers v k) \<and> no_newer (vers v k) l \<and> r < l"
| "batch_error_reason v c gs ws (batch_error.GuardFailedVersionMismatch k expected actual) \<longleftrightarrow>
     expected \<noteq> actual \<and>
     (\<exists>r. ExpectedVersion k r expected \<in> set gs \<and> map_option fst (visible (vers v k) r) = actual)"
| "batch_error_reason v c gs ws (batch_error.GuardFailedValueMismatch k) \<longleftrightarrow>
     (\<exists>r x. ExpectedValue k r x \<in> set gs \<and> visible_value (vers v k) r \<noteq> x)"
| "batch_error_reason v c gs ws (batch_error.Backend msg) \<longleftrightarrow> False"

section \<open>Refinement\<close>

text \<open>
  An outcome refines a specified one: the representation stays valid, and either the backend
  reported a failure and the view is unchanged, or result and view are the specified ones.
\<close>

definition refines ::
  "('b \<Rightarrow> bool) \<Rightarrow> ('b \<Rightarrow> mvcc_view) \<Rightarrow> (string \<Rightarrow> 'e) \<Rightarrow> 'b \<Rightarrow> ('e + 'a) \<times> 'b \<Rightarrow>
   ('e + 'a) \<times> mvcc_view \<Rightarrow> bool" where
  "refines valid view bk b out spec \<longleftrightarrow>
     (case out of (r, b') \<Rightarrow>
        valid b' \<and> ((\<exists>msg. r = Err (bk msg)) \<and> view b' = view b \<or> (r, view b') = spec))"

text \<open>
  The same for a batch: accepted exactly under the condition \<open>ok\<close> and then leading to \<open>v'\<close>,
  otherwise leaving the view and reporting an error that \<open>reason\<close> justifies.
\<close>

definition batch_refines ::
  "('b \<Rightarrow> bool) \<Rightarrow> ('b \<Rightarrow> mvcc_view) \<Rightarrow> (string \<Rightarrow> 'e) \<Rightarrow> 'b \<Rightarrow> ('e + unit) \<times> 'b \<Rightarrow>
   bool \<Rightarrow> mvcc_view \<Rightarrow> ('e \<Rightarrow> bool) \<Rightarrow> bool" where
  "batch_refines valid view bk b out ok v' reason \<longleftrightarrow>
     (case out of (r, b') \<Rightarrow>
        valid b' \<and>
        (case r of
           Inr _ \<Rightarrow> ok \<and> view b' = v'
         | Inl err \<Rightarrow> view b' = view b \<and> ((\<exists>msg. err = bk msg) \<or> \<not> ok \<and> reason err)))"

text \<open>On a backend that never fails, a batch is decided by its condition.\<close>

definition batch_exact ::
  "('b \<Rightarrow> bool) \<Rightarrow> ('b \<Rightarrow> mvcc_view) \<Rightarrow> 'b \<Rightarrow> ('e + unit) \<times> 'b \<Rightarrow>
   bool \<Rightarrow> mvcc_view \<Rightarrow> ('e \<Rightarrow> bool) \<Rightarrow> bool" where
  "batch_exact valid view b out ok v' reason \<longleftrightarrow>
     (case out of (r, b') \<Rightarrow>
        valid b' \<and>
        (if ok then r = Ok () \<and> view b' = v'
         else view b' = view b \<and> (\<exists>err. r = Err err \<and> reason err)))"

section \<open>Facts about the specification\<close>

lemma refines_exact:
  "refines valid view bk b out spec \<Longrightarrow> (\<And>msg. fst out \<noteq> Err (bk msg)) \<Longrightarrow>
   valid (snd out) \<and> (fst out, view (snd out)) = spec"
  by (cases out) (auto simp: refines_def)

lemma batch_refines_exact:
  "batch_refines valid view bk b out ok v' reason \<Longrightarrow> (\<And>msg. fst out \<noteq> Err (bk msg)) \<Longrightarrow>
   batch_exact valid view b out ok v' reason"
  by (cases out) (auto simp: batch_refines_def batch_exact_def split: sum.splits)

lemma refines_valid: "refines valid view bk b (r, b') spec \<Longrightarrow> valid b'"
  by (simp add: refines_def)

lemma batch_refines_valid: "batch_refines valid view bk b (r, b') ok v' reason \<Longrightarrow> valid b'"
  by (simp add: batch_refines_def)

lemma batch_refines_Err: "batch_refines valid view bk b (Err err, b') ok v' reason \<Longrightarrow> view b' = view b"
  by (simp add: batch_refines_def)

lemma spec_prewrite_Err: "spec_prewrite v txn s k m = (Err err, v') \<Longrightarrow> v' = v"
  by (auto simp: spec_prewrite_def split: option.splits if_splits)

lemma spec_commit_Err: "spec_commit v txn k s c = (Err err, v') \<Longrightarrow> v' = v"
  by (auto simp: spec_commit_def split: option.splits if_splits)

lemma above_all_newest:
  "finite (dom h) \<Longrightarrow>
   above_all h c \<longleftrightarrow> (case newest_ts h of Some t \<Rightarrow> t < c | None \<Rightarrow> True)"
  by (auto simp: above_all_def newest_ts_def)

lemma no_newer_newest:
  "finite (dom h) \<Longrightarrow>
   no_newer h s \<longleftrightarrow> (case newest_ts h of Some t \<Rightarrow> t \<le> s | None \<Rightarrow> True)"
  by (auto simp: no_newer_def newest_ts_def)

lemma above_all_no_newer: "no_newer h s \<Longrightarrow> s < c \<Longrightarrow> above_all h c"
  by (auto simp: above_all_def no_newer_def intro: le_less_trans)

lemma visible_above_all:
  "finite (dom h) \<Longrightarrow> above_all h c \<Longrightarrow>
   visible (h(c \<mapsto> x)) ts = (if c \<le> ts then Some (c, x) else visible h ts)"
  by (rule visible_update) (auto simp: above_all_def)

lemma find_duplicate_None: "find_duplicate S ks = None \<longleftrightarrow> distinct ks \<and> set ks \<inter> S = {}"
  by (induction S ks rule: find_duplicate.induct) auto

lemma find_duplicate_Some:
  "find_duplicate S ks = Some k \<Longrightarrow> k \<in> S \<and> k \<in> set ks \<or> 1 < count_list ks k"
proof (induction S ks rule: find_duplicate.induct)
  case (2 S x ks)
  then show ?case
    by (auto split: if_splits simp: count_list_0_iff)
qed simp

lemma find_duplicate_distinct [simp]: "find_duplicate {} ks = None \<longleftrightarrow> distinct ks"
  by (simp add: find_duplicate_None)

lemma find_duplicate_count: "find_duplicate {} ks = Some k \<Longrightarrow> 1 < count_list ks k"
  by (drule find_duplicate_Some) simp

text \<open>Above the newest version every reader sees the same.\<close>

lemma no_newer_visible:
  assumes "no_newer h s" and "s \<le> ts"
  shows "visible h ts = visible h s"
proof -
  have "h |` {..ts} = h |` {..s}"
  proof (rule ext)
    fix t
    have "t \<le> s \<or> h t = None"
      using assms(1) unfolding no_newer_def by blast
    then show "(h |` {..ts}) t = (h |` {..s}) t"
      using assms(2) by (auto simp: restrict_map_def)
  qed
  then show ?thesis
    by (simp add: visible_def visible_ts_def)
qed

end
