(* ===== verification/Engine_Laws.thy ===== *)
theory Engine_Laws
  imports Mvcc_Spec
begin

text \<open>
  The transactional operations on any backend that keeps the contract. Every lemma here is about
  the engine as a client of the \<open>Backend\<close> interface; nothing is known of the storage but its laws.
\<close>

section \<open>Steps shared by the operations\<close>

lemma map_of_rev_distinct: "distinct (map fst xs) \<Longrightarrow> map_of (rev xs) = map_of xs"
  by (subst map_of_inject_set) (simp_all add: rev_map [symmetric])

lemma bind_as_version [simp]: "Option.bind (map_option (as_version k) o') cv_value = Option.bind o' snd"
  by (cases o') (auto simp: as_version_def)

lemma map_as_version [simp]:
  "map_option (\<lambda>v. (cv_commit_ts v, cv_value v)) (map_option (as_version k) o') = o'"
  by (cases o') (auto simp: as_version_def)

lemma map_commit_ts_as_version [simp]:
  "map_option cv_commit_ts (map_option (as_version k) o') = map_option fst o'"
  by (cases o') (auto simp: as_version_def)

context backend_reads
begin

lemma finite_vers [simp]: "valid b \<Longrightarrow> finite (dom (vers (view b) k))"
  using valid_view_ok by (simp add: view_ok_def)

lemma get_intent_cases [consumes 1, case_names fails found]:
  assumes "valid b"
  obtains (fails) msg where "get_intent B b k = Inl msg"
    | (found) "get_intent B b k = Inr (locks (view b) k)"
  using get_intent_law [OF assms] by (cases "get_intent B b k") auto

lemma get_latest_commit_ts_cases [consumes 1, case_names fails found]:
  assumes "valid b"
  obtains (fails) msg where "get_latest_commit_ts B b k = Inl msg"
    | (found) "get_latest_commit_ts B b k = Inr (newest_ts (vers (view b) k))"
  using get_latest_commit_ts_law [OF assms] by (cases "get_latest_commit_ts B b k") auto

lemma read_law:
  "valid b \<Longrightarrow> read B b k ts = Inr x \<Longrightarrow> x = visible_value (vers (view b) k) ts"
  by (auto simp: read_def res_bind_eq_Ok visible_value_def dest!: get_visible_committed_law)

lemma read_with_version_law:
  "valid b \<Longrightarrow> read_with_version B b k ts = Inr x \<Longrightarrow> x = visible (vers (view b) k) ts"
  by (auto simp: read_with_version_def res_bind_eq_Ok dest!: get_visible_committed_law)

lemma read_own_write_law:
  assumes "valid b" and "read_own_write B b k txn s ts = Inr x"
  shows "x = (if owns (view b) k txn s
    then mutation_value (intent_mutation (the (locks (view b) k)))
    else visible_value (vers (view b) k) ts)"
  using assms(1)
proof (cases rule: get_intent_cases [of b k])
  case found
  with assms read_law [OF assms(1), of k ts x] show ?thesis
    by (cases "locks (view b) k") (auto simp: read_own_write_def owns_def split: if_splits)
qed (use assms in \<open>simp add: read_own_write_def\<close>)

end

section \<open>Single-key operations refine their specification\<close>

context backend_contract
begin

lemma prewrite_refines:
  assumes "valid b"
  shows "refines valid view prewrite_error.Backend b (prewrite B b txn s k m)
    (spec_prewrite (view b) txn s k m)"
  using assms
proof (cases rule: get_intent_cases [of b k])
  case (fails msg)
  with assms show ?thesis
    by (simp add: prewrite_def refines_def)
next
  case found
  show ?thesis
  proof (cases "locks (view b) k")
    case (Some i)
    with found assms show ?thesis
      by (auto simp: prewrite_def refines_def spec_prewrite_def)
  next
    case None
    show ?thesis
      using assms
    proof (cases rule: get_latest_commit_ts_cases [of b k])
      case (fails msg)
      with found None assms show ?thesis
        by (simp add: prewrite_def refines_def)
    next
      case latest: found
      let ?i = "\<lparr>intent_key = k, intent_txn_id = txn, intent_start_ts = s, intent_mutation = m,
        intent_min_commit_ts = None\<rparr>"
      obtain r b' where put: "put_intent B b ?i = (r, b')"
        by (cases "put_intent B b ?i")
      with put_intent_law [OF assms, of ?i] found None latest assms show ?thesis
        by (cases r) (auto simp: prewrite_def refines_def spec_prewrite_def atomic_step_def
            no_newer_newest split: option.splits)
    qed
  qed
qed

lemma commit_step_view:
  assumes "owns v k txn s" and "cv = \<lparr>cv_key = k, cv_commit_ts = c,
    cv_value = mutation_value (intent_mutation (the (locks v k)))\<rparr>"
  shows "v_remove_intent (k, txn, s) (v_put_committed cv v) = commit_view v c {k}"
  using assms
  by (auto simp: v_remove_intent_def owns_def v_put_committed_def commit_view_def fun_eq_iff)

lemma commit_apply_refines:
  assumes "valid b" and i: "locks (view b) k = Some i" "intent_txn_id i = txn" "intent_start_ts i = s"
    and "s < c" and "\<nexists>m. intent_min_commit_ts i = Some m \<and> c < m"
  shows "refines valid view commit_error.Backend b (commit_apply B b txn k s c i)
    (spec_commit (view b) txn k s c)"
  using assms(1)
proof (cases rule: get_latest_commit_ts_cases [of b k])
  case (fails msg)
  with assms show ?thesis
    by (simp add: commit_apply_def refines_def)
next
  case found
  let ?h = "vers (view b) k"
  let ?cv = "\<lparr>cv_key = k, cv_commit_ts = c, cv_value = mutation_value (intent_mutation i)\<rparr>"
  have fin: "finite (dom ?h)"
    using assms(1) by simp
  have dup: "newest_ts ?h = Some c \<longleftrightarrow> c \<in> dom ?h \<and> no_newer ?h c"
    using fin by (simp add: newest_ts_Some_iff no_newer_def)
  have old: "\<not> above_all ?h c \<longleftrightarrow> (\<exists>t. newest_ts ?h = Some t \<and> c \<le> t)"
    using fin by (auto simp: above_all_newest not_less split: option.splits)
  have max: "newest_ts ?h = Some t \<Longrightarrow> Max (dom ?h) = t" for t
    by (auto simp: newest_ts_def split: if_splits)
  have v: "v_remove_intent (k, txn, s) (v_put_committed ?cv (view b)) = commit_view (view b) c {k}"
    using i by (intro commit_step_view) (auto simp: owns_def)
  obtain r b' where co: "commit_intents_batch B b [?cv] [(k, txn, s)] = (r, b')"
    by (cases "commit_intents_batch B b [?cv] [(k, txn, s)]")
  have st: "atomic_step valid view b (r, b') (commit_view (view b) c {k})"
    using commit_intents_batch_law [OF assms(1), of "[?cv]" "[(k, txn, s)]"] by (simp add: co v)
  show ?thesis
    unfolding commit_apply_def spec_commit_def
    using assms found co st
    by (cases r; auto simp: refines_def atomic_step_def not_le dup [symmetric] old max
        split: option.splits)
qed

lemma commit_refines:
  assumes "valid b"
  shows "refines valid view commit_error.Backend b (commit B b txn k s c)
    (spec_commit (view b) txn k s c)"
  using assms
proof (cases rule: get_intent_cases [of b k])
  case (fails msg)
  with assms show ?thesis
    by (simp add: commit_def refines_def)
next
  case found
  show ?thesis
  proof (cases "locks (view b) k")
    case None
    with found assms show ?thesis
      by (auto simp: commit_def refines_def spec_commit_def)
  next
    case (Some i)
    note tail = commit_apply_refines [OF assms Some, of txn s c]
    have "commit B b txn k s c = commit_apply B b txn k s c i"
      if "intent_txn_id i = txn" "intent_start_ts i = s" "s < c"
        "\<nexists>m. intent_min_commit_ts i = Some m \<and> c < m"
      using found Some that by (auto simp: commit_def split: option.splits)
    then show ?thesis
      using tail found Some assms
      by (cases "intent_txn_id i = txn \<and> intent_start_ts i = s \<and> s < c \<and>
          (\<nexists>m. intent_min_commit_ts i = Some m \<and> c < m)")
        (auto simp: commit_def refines_def spec_commit_def not_less split: option.splits)
  qed
qed

lemma abort_refines:
  assumes "valid b"
  shows "refines valid view abort_error.Backend b (abort B b txn k s)
    (Ok (), spec_abort (view b) txn k s)"
  using remove_intent_law [OF assms, of k txn s]
  by (cases "remove_intent B b k txn s"; cases "fst (remove_intent B b k txn s)")
    (auto simp: abort_def refines_def atomic_step_def spec_abort_def v_remove_intent_def)

end

section \<open>Batches refine their specification\<close>

context backend_contract
begin

lemma prewrite_batch_validate_law:
  assumes "valid b" and "prewrite_batch_validate B b txn s ws n = r"
  shows "case r of
      Inr m \<Rightarrow> m = n + length (filter (write_replays (view b) txn s) ws) \<and>
        (\<forall>w\<in>set ws. write_replays (view b) txn s w \<or>
           locks (view b) (pw_key w) = None \<and> no_newer (vers (view b) (pw_key w)) s)
    | Inl err \<Rightarrow> (\<exists>msg. err = batch_prewrite_error.Backend msg) \<or>
        prewrite_batch_reason (view b) txn s ws err \<and>
        (\<exists>w\<in>set ws. \<not> write_replays (view b) txn s w \<and>
           \<not> (locks (view b) (pw_key w) = None \<and> no_newer (vers (view b) (pw_key w)) s))"
  using assms(2)
proof (induction ws arbitrary: n)
  case (Cons w ws)
  let ?v = "view b" and ?k = "pw_key w"
  show ?case
    using assms(1)
  proof (cases rule: get_intent_cases [of b ?k])
    case (fails msg)
    with Cons.prems show ?thesis by auto
  next
    case found
    show ?thesis
    proof (cases "locks ?v ?k")
      case (Some i)
      show ?thesis
      proof (cases "write_replays ?v txn s w")
        case True
        with Some found Cons.prems have "prewrite_batch_validate B b txn s ws (n + 1) = r"
          by (auto simp: write_replays_def owns_def)
        from Cons.IH [OF this] True show ?thesis
          by (cases r) (auto elim!: prewrite_batch_reason.elims)
      next
        case False
        with Some found Cons.prems show ?thesis
          by (auto simp: write_replays_def owns_def split: if_splits)
      qed
    next
      case None
      then have not: "\<not> write_replays ?v txn s w"
        by (simp add: write_replays_def owns_def)
      show ?thesis
        using assms(1)
      proof (cases rule: get_latest_commit_ts_cases [of b ?k])
        case (fails msg)
        with found None Cons.prems show ?thesis by auto
      next
        case latest: found
        show ?thesis
        proof (cases "no_newer (vers ?v ?k) s")
          case True
          with latest found None Cons.prems assms(1)
          have "prewrite_batch_validate B b txn s ws n = r"
            by (auto simp: no_newer_newest split: option.splits)
          from Cons.IH [OF this] True None not show ?thesis
            by (cases r) (auto elim!: prewrite_batch_reason.elims)
        next
          case False
          with latest found None Cons.prems assms(1) not show ?thesis
            by (auto simp: no_newer_newest split: option.splits)
        qed
      qed
    qed
  qed
qed auto

lemma prewrite_batch_step_view:
  assumes "distinct (map pw_key ws)"
  shows "fold v_put_intent (map (write_intent txn s) ws) v = prewrite_view v txn s ws"
proof -
  have "map_of (rev (map (\<lambda>w. (pw_key w, write_intent txn s w)) ws)) =
      map_of (map (\<lambda>w. (pw_key w, write_intent txn s w)) ws)"
    using assms by (intro map_of_rev_distinct) (simp add: o_def)
  then have "locks (fold v_put_intent (map (write_intent txn s) ws) v) = locks (prewrite_view v txn s ws)"
    by (simp add: fold_put_intents_locks prewrite_view_def o_def write_intent_def)
  then show ?thesis
    by (simp add: prewrite_view_def)
qed

lemma prewrite_batch_refines:
  assumes "valid b"
  shows "batch_refines valid view batch_prewrite_error.Backend b (prewrite_batch B b txn s ws)
    (prewrite_batch_fresh (view b) s ws \<or> prewrite_batch_replay (view b) txn s ws)
    (if prewrite_batch_fresh (view b) s ws then prewrite_view (view b) txn s ws else view b)
    (prewrite_batch_reason (view b) txn s ws)"
proof (cases "ws = [] \<or> \<not> distinct (map pw_key ws)")
  case True
  then show ?thesis
    using assms find_duplicate_count
    by (auto simp: prewrite_batch_def batch_refines_def prewrite_batch_fresh_def
        prewrite_batch_replay_def split: option.splits)
next
  case False
  let ?v = "view b" and ?rep = "write_replays (view b) txn s"
  have nd: "find_duplicate {} (map pw_key ws) = None"
    using False by simp
  define val where "val = prewrite_batch_validate B b txn s ws 0"
  note law = prewrite_batch_validate_law [OF assms val_def [symmetric]]
  have no_rep: "\<not> ?rep w" if "locks ?v (pw_key w) = None" for w
    using that by (simp add: write_replays_def owns_def)
  show ?thesis
  proof (cases val)
    case (Inl err)
    with law False assms show ?thesis
      by (auto simp: prewrite_batch_def nd val_def batch_refines_def prewrite_batch_fresh_def
          prewrite_batch_replay_def)
  next
    case (Inr m)
    with law have m: "m = length (filter ?rep ws)"
      and each: "\<And>w. w \<in> set ws \<Longrightarrow> ?rep w \<or>
        locks ?v (pw_key w) = None \<and> no_newer (vers ?v (pw_key w)) s"
      by auto
    consider (all) "\<forall>w\<in>set ws. ?rep w" | (none) "\<forall>w\<in>set ws. \<not> ?rep w"
      | (mixed) "\<exists>w\<in>set ws. ?rep w" "\<exists>w\<in>set ws. \<not> ?rep w"
      by blast
    then show ?thesis
    proof cases
      case all
      then have "m = length ws" "prewrite_batch_replay ?v txn s ws"
        using False by (auto simp: m prewrite_batch_replay_def)
      moreover have "\<not> prewrite_batch_fresh ?v s ws"
        using all False no_rep by (metis list.set_sel(1) prewrite_batch_fresh_def)
      ultimately show ?thesis
        using False Inr assms by (simp add: prewrite_batch_def nd val_def batch_refines_def)
    next
      case none
      then have fresh: "m = 0" "prewrite_batch_fresh ?v s ws"
        using False each by (auto simp: m prewrite_batch_fresh_def filter_empty_conv)
      obtain r b' where put: "put_intents_batch B b (map (write_intent txn s) ws) = (r, b')"
        by (cases "put_intents_batch B b (map (write_intent txn s) ws)")
      with put_intents_batch_law [OF assms, of "map (write_intent txn s) ws"] False fresh Inr
      show ?thesis
        by (cases r) (auto simp: prewrite_batch_def nd val_def batch_refines_def atomic_step_def
            prewrite_batch_step_view)
    next
      case mixed
      then have "filter ?rep ws \<noteq> []" "length (filter ?rep ws) < length ws"
        by (auto simp: filter_empty_conv length_filter_less)
      moreover have "\<exists>w\<in>set ws. locks ?v (pw_key w) = None"
        using mixed each by blast
      moreover have "\<not> prewrite_batch_fresh ?v s ws" "\<not> prewrite_batch_replay ?v txn s ws"
        using mixed no_rep unfolding prewrite_batch_fresh_def prewrite_batch_replay_def by blast+
      ultimately show ?thesis
        using mixed False Inr assms
        by (auto simp: prewrite_batch_def nd val_def batch_refines_def m)
    qed
  qed
qed

lemma commit_batch_key_law:
  assumes "valid b" and "commit_batch_key B b txn s c k = r" and "k \<in> set ks"
  shows "case r of
      Inr cv \<Rightarrow> cv = \<lparr>cv_key = k, cv_commit_ts = c,
          cv_value = mutation_value (intent_mutation (the (locks (view b) k)))\<rparr> \<and>
        owns (view b) k txn s \<and> above_all (vers (view b) k) c \<and>
        (\<forall>m. intent_min_commit_ts (the (locks (view b) k)) = Some m \<longrightarrow> m \<le> c)
    | Inl err \<Rightarrow> (\<exists>msg. err = batch_commit_error.Backend msg) \<or>
        commit_batch_reason (view b) txn s c ks err \<and>
        \<not> (owns (view b) k txn s \<and> above_all (vers (view b) k) c \<and>
           (\<forall>m. intent_min_commit_ts (the (locks (view b) k)) = Some m \<longrightarrow> m \<le> c))"
  using assms(1)
proof (cases rule: get_intent_cases [of b k])
  case (fails msg)
  with assms show ?thesis by (auto simp: commit_batch_key_def)
next
  case found
  show ?thesis
  proof (cases "locks (view b) k")
    case None
    with found assms show ?thesis by (auto simp: commit_batch_key_def owns_def)
  next
    case (Some i)
    let ?h = "vers (view b) k"
    have above: "above_all ?h c \<longleftrightarrow> (case newest_ts ?h of Some t \<Rightarrow> t < c | None \<Rightarrow> True)"
      and top: "\<And>t. newest_ts ?h = Some t \<Longrightarrow> t \<in> dom ?h \<and> no_newer ?h t"
      using assms(1) by (auto simp: above_all_newest newest_ts_Some_iff no_newer_def)
    show ?thesis
      using assms(1)
    proof (cases rule: get_latest_commit_ts_cases [of b k])
      case (fails msg)
      with found Some assms show ?thesis
        by (auto simp: commit_batch_key_def owns_def split: if_splits option.splits)
    next
      case latest: found
      show ?thesis
        using assms(2,3) top unfolding commit_batch_key_def found latest
        by (auto simp: Some owns_def above not_le not_less split: if_splits option.splits)
    qed
  qed
qed

lemma commit_batch_validate_law:
  assumes "valid b" and "commit_batch_validate B b txn s c ks = r" and "set ks \<subseteq> set ks'"
  shows "case r of
      Inr cvs \<Rightarrow> cvs = map (\<lambda>k. \<lparr>cv_key = k, cv_commit_ts = c,
          cv_value = mutation_value (intent_mutation (the (locks (view b) k)))\<rparr>) ks \<and>
        (\<forall>k\<in>set ks. owns (view b) k txn s \<and> above_all (vers (view b) k) c \<and>
          (\<forall>m. intent_min_commit_ts (the (locks (view b) k)) = Some m \<longrightarrow> m \<le> c))
    | Inl err \<Rightarrow> (\<exists>msg. err = batch_commit_error.Backend msg) \<or>
        commit_batch_reason (view b) txn s c ks' err \<and>
        (\<exists>k\<in>set ks. \<not> (owns (view b) k txn s \<and> above_all (vers (view b) k) c \<and>
           (\<forall>m. intent_min_commit_ts (the (locks (view b) k)) = Some m \<longrightarrow> m \<le> c)))"
  using assms(2,3)
proof (induction ks arbitrary: r)
  case (Cons k ks)
  from Cons.prems have "k \<in> set ks'" "set ks \<subseteq> set ks'"
    by auto
  with commit_batch_key_law [OF assms(1) refl, where k = k and ks = ks' and txn = txn and s = s and c = c]
    Cons.IH [OF refl] Cons.prems(1)
  show ?case
    by (cases "commit_batch_key B b txn s c k"; cases "commit_batch_validate B b txn s c ks") auto
qed auto

lemma commit_batch_step_view:
  assumes "\<forall>k\<in>set ks. owns v k txn s"
  shows "fold v_remove_intent (map (\<lambda>k. (k, txn, s)) ks)
      (fold v_put_committed (map (\<lambda>k. \<lparr>cv_key = k, cv_commit_ts = c,
        cv_value = mutation_value (intent_mutation (the (locks v k)))\<rparr>) ks) v) =
    commit_view v c (set ks)" (is "fold _ ?rs (fold _ ?cs v) = _")
proof (rule mvcc_view.equality)
  have "map_of (rev (map (\<lambda>cv. ((cv_key cv, cv_commit_ts cv), cv_value cv)) ?cs)) (k, t) =
      (if k \<in> set ks \<and> t = c then Some (mutation_value (intent_mutation (the (locks v k)))) else None)"
    for k t
    by (induction ks) (auto simp: map_add_def split: option.splits)
  then show "vers (fold v_remove_intent ?rs (fold v_put_committed ?cs v)) = vers (commit_view v c (set ks))"
    by (auto simp: fun_eq_iff fold_put_committed_vers commit_view_def split: option.splits)
  show "locks (fold v_remove_intent ?rs (fold v_put_committed ?cs v)) = locks (commit_view v c (set ks))"
    using assms
    by (auto simp: fun_eq_iff fold_remove_intents_locks commit_view_def owns_def image_iff
        split: option.splits)
qed simp

lemma commit_batch_refines:
  assumes "valid b"
  shows "batch_refines valid view batch_commit_error.Backend b (commit_batch B b txn s c ks)
    (commit_batch_ok (view b) txn s c ks) (commit_view (view b) c (set ks))
    (commit_batch_reason (view b) txn s c ks)"
proof (cases "ks = [] \<or> \<not> distinct ks \<or> c \<le> s")
  case True
  then show ?thesis
    using assms find_duplicate_count
    by (auto simp: commit_batch_def batch_refines_def commit_batch_ok_def split: option.splits)
next
  case False
  then have nd: "find_duplicate {} ks = None"
    by simp
  let ?rs = "map (\<lambda>k. (k, txn, s)) ks"
  define val where "val = commit_batch_validate B b txn s c ks"
  note law = commit_batch_validate_law [OF assms val_def [symmetric] order.refl]
  show ?thesis
  proof (cases val)
    case (Inl err)
    with law False assms show ?thesis
      by (auto simp: commit_batch_def nd val_def batch_refines_def commit_batch_ok_def)
  next
    case (Inr cvs)
    obtain r b' where co: "commit_intents_batch B b cvs ?rs = (r, b')"
      by (cases "commit_intents_batch B b cvs ?rs")
    have "fold v_remove_intent ?rs (fold v_put_committed cvs (view b)) = commit_view (view b) c (set ks)"
      using law Inr commit_batch_step_view [of ks "view b" txn s c] by auto
    with commit_intents_batch_law [OF assms, of cvs ?rs] law False Inr co show ?thesis
      by (cases r) (auto simp: commit_batch_def nd val_def batch_refines_def commit_batch_ok_def
          atomic_step_def)
  qed
qed

lemma abort_batch_collect_law:
  assumes "valid b"
  shows "case abort_batch_collect B b txn s ks of
      Inr rs \<Rightarrow> rs = map (\<lambda>k. (k, txn, s)) (filter (\<lambda>k. owns (view b) k txn s) ks)
    | Inl err \<Rightarrow> \<exists>msg. err = batch_abort_error.Backend msg"
proof (induction ks)
  case (Cons k ks)
  have own: "owns (view b) k txn s \<longleftrightarrow> (case locks (view b) k of
      Some i \<Rightarrow> intent_txn_id i = txn \<and> intent_start_ts i = s | None \<Rightarrow> False)"
    by (auto simp: owns_def split: option.splits)
  show ?case
    using assms
  proof (cases rule: get_intent_cases [of b k])
    case found
    with Cons show ?thesis
      by (cases "abort_batch_collect B b txn s ks"; cases "locks (view b) k") (auto simp: own)
  qed auto
qed auto

lemma abort_batch_step_view:
  "fold v_remove_intent (map (\<lambda>k. (k, txn, s)) (filter (\<lambda>k. owns v k txn s) ks)) v =
   abort_view v txn s (set ks)"
  by (rule mvcc_view.equality)
    (auto simp: fun_eq_iff fold_remove_intents_locks abort_view_def owns_def image_iff
      split: option.splits)

lemma abort_batch_refines:
  assumes "valid b"
  shows "batch_refines valid view batch_abort_error.Backend b (abort_batch B b txn s ks)
    (distinct ks) (abort_view (view b) txn s (set ks))
    (\<lambda>err. \<exists>k. err = batch_abort_error.DuplicateKeyInBatch k \<and> 1 < count_list ks k)"
proof (cases "ks = [] \<or> \<not> distinct ks")
  case True
  then show ?thesis
    using assms find_duplicate_count
    by (auto simp: abort_batch_def batch_refines_def abort_view_def split: option.splits)
next
  case False
  then have nd: "find_duplicate {} ks = None"
    by simp
  define col where "col = abort_batch_collect B b txn s ks"
  note law = abort_batch_collect_law [OF assms, of txn s ks, folded col_def]
  show ?thesis
  proof (cases col)
    case (Inl err)
    with law False assms show ?thesis
      by (auto simp: abort_batch_def nd col_def batch_refines_def)
  next
    case (Inr rs)
    obtain r b' where re: "remove_intents_batch B b rs = (r, b')"
      by (cases "remove_intents_batch B b rs")
    with remove_intents_batch_law [OF assms, of rs] law False Inr show ?thesis
      by (cases r) (auto simp: abort_batch_def nd col_def batch_refines_def atomic_step_def
          abort_batch_step_view)
  qed
qed

lemma validate_writes_law:
  assumes "valid b" and "validate_writes B b c ws = r" and "set ws \<subseteq> set ws'"
  shows "case r of
      Inr _ \<Rightarrow> \<forall>w\<in>set ws. locks (view b) (pw_key w) = None \<and> above_all (vers (view b) (pw_key w)) c
    | Inl err \<Rightarrow> (\<exists>msg. err = batch_error.Backend msg) \<or>
        batch_error_reason (view b) c gs ws' err \<and>
        (\<exists>w\<in>set ws. \<not> (locks (view b) (pw_key w) = None \<and> above_all (vers (view b) (pw_key w)) c))"
  using assms(2,3)
proof (induction ws arbitrary: r)
  case (Cons w ws)
  let ?k = "pw_key w" and ?h = "vers (view b) (pw_key w)"
  have above: "above_all ?h c \<longleftrightarrow> (case newest_ts ?h of Some t \<Rightarrow> t < c | None \<Rightarrow> True)"
    and top: "\<And>t. newest_ts ?h = Some t \<Longrightarrow> t \<in> dom ?h \<and> no_newer ?h t"
    using assms(1) by (auto simp: above_all_newest newest_ts_Some_iff no_newer_def)
  show ?case
    using assms(1)
  proof (cases rule: get_intent_cases [of b ?k])
    case (fails msg)
    with Cons.prems show ?thesis by auto
  next
    case found
    show ?thesis
    proof (cases "locks (view b) ?k")
      case (Some i)
      with found Cons.prems show ?thesis by auto
    next
      case None
      show ?thesis
        using assms(1)
      proof (cases rule: get_latest_commit_ts_cases [of b ?k])
        case (fails msg)
        with found None Cons.prems show ?thesis by auto
      next
        case latest: found
        show ?thesis
        proof (cases "above_all ?h c")
          case True
          with latest found None Cons.prems have "validate_writes B b c ws = r" "set ws \<subseteq> set ws'"
            by (auto simp: above split: option.splits)
          from Cons.IH [OF this] True None show ?thesis
            by (cases r) auto
        next
          case False
          with latest found None Cons.prems top show ?thesis
            by (auto simp: above not_less split: option.splits)
        qed
      qed
    qed
  qed
qed auto

lemma write_batch_step_view:
  assumes "distinct (map pw_key ws)"
  shows "fold v_put_committed (map (write_version c) ws) v = write_view v c ws"
proof (rule mvcc_view.equality)
  let ?cs = "map (write_version c) ws"
  have "map_of (rev (map (\<lambda>cv. ((cv_key cv, cv_commit_ts cv), cv_value cv)) ?cs)) (k, t) =
      (if t = c then map_of (map (\<lambda>w. (pw_key w, pw_value w)) ws) k else None)" for k t
    using assms
  proof (induction ws)
    case (Cons w ws)
    then have "map_of (map (\<lambda>w. (pw_key w, pw_value w)) ws) (pw_key w) = None"
      by (auto simp: map_of_eq_None_iff)
    with Cons show ?case
      by (auto simp: write_version_def map_add_def split: option.splits)
  qed simp
  then show "vers (fold v_put_committed ?cs v) = vers (write_view v c ws)"
    by (auto simp: fun_eq_iff fold_put_committed_vers write_view_def split: option.splits)
qed (simp_all add: write_view_def)

lemma apply_writes_refines:
  assumes "valid b" and "writes_ok (view b) c ws \<and> P"
  shows "batch_refines valid view batch_error.Backend b (apply_writes B b c ws)
    (writes_ok (view b) c ws \<and> P) (write_view (view b) c ws) reason"
proof -
  let ?cs = "map (write_version c) ws"
  obtain r b' where put: "put_committed_batch B b ?cs = (r, b')"
    by (cases "put_committed_batch B b ?cs")
  with put_committed_batch_law [OF assms(1), of ?cs] assms show ?thesis
    by (cases r) (auto simp: apply_writes_def batch_refines_def atomic_step_def writes_ok_def
        write_batch_step_view)
qed

lemma apply_direct_batch_refines:
  assumes "valid b"
  shows "batch_refines valid view batch_error.Backend b (apply_direct_batch B b c ws)
    (writes_ok (view b) c ws) (write_view (view b) c ws) (batch_error_reason (view b) c [] ws)"
proof (cases "ws = [] \<or> \<not> distinct (map pw_key ws)")
  case True
  then show ?thesis
    using assms find_duplicate_count
    by (auto simp: apply_direct_batch_def batch_refines_def writes_ok_def split: option.splits)
next
  case False
  then have nd: "find_duplicate {} (map pw_key ws) = None"
    by simp
  note law = validate_writes_law [OF assms refl order.refl, where c = c and ws = ws and gs = "[]"]
  show ?thesis
  proof (cases "validate_writes B b c ws")
    case (Inl err)
    with law False assms show ?thesis
      by (auto simp: apply_direct_batch_def nd batch_refines_def writes_ok_def)
  next
    case (Inr u)
    with law False have "writes_ok (view b) c ws \<and> True"
      by (simp add: writes_ok_def)
    from apply_writes_refines [OF assms this] False Inr show ?thesis
      by (simp add: apply_direct_batch_def nd)
  qed
qed

lemma guard_compare_law:
  assumes "vis = visible (vers v (guard_key g)) (guard_read_ts g)" and "g \<in> set gs"
  shows "case guard_compare g (map_option (as_version k) vis) of
      Inr _ \<Rightarrow> guard_matches v g
    | Inl err \<Rightarrow> \<not> guard_matches v g \<and> batch_error_reason v c gs ws err"
  using assms by (cases g) (auto simp: visible_value_def)

lemma check_guard_law:
  assumes "valid b" and "g \<in> set gs"
  shows "case check_guard B b c g of
      Inr _ \<Rightarrow> guard_holds (view b) c g
    | Inl err \<Rightarrow> (\<exists>msg. err = batch_error.Backend msg) \<or>
        \<not> guard_holds (view b) c g \<and> batch_error_reason (view b) c gs ws err"
proof (cases "c \<le> guard_read_ts g")
  case True
  with assms(2) show ?thesis
    by (auto simp: check_guard_def guard_holds_def)
next
  case False
  let ?k = "guard_key g" and ?h = "vers (view b) (guard_key g)"
  have newer: "no_newer ?h s \<longleftrightarrow> (case newest_ts ?h of Some t \<Rightarrow> t \<le> s | None \<Rightarrow> True)" for s
    using assms(1) by (simp add: no_newer_newest)
  have top: "newest_ts ?h = Some t \<Longrightarrow> (\<exists>y. ?h t = Some y) \<and> (\<forall>s\<in>dom ?h. s \<le> t)" for t
    using assms(1) by (auto simp: newest_ts_Some_iff)
  show ?thesis
    using assms(1)
  proof (cases rule: get_intent_cases [of b ?k])
    case (fails msg)
    with False show ?thesis by (auto simp: check_guard_def)
  next
    case found
    show ?thesis
    proof (cases "locks (view b) ?k")
      case (Some i)
      with found False assms(2) show ?thesis by (auto simp: check_guard_def guard_holds_def)
    next
      case None
      show ?thesis
        using assms(1)
      proof (cases rule: get_latest_commit_ts_cases [of b ?k])
        case (fails msg)
        with found None False show ?thesis by (auto simp: check_guard_def)
      next
        case latest: found
        show ?thesis
        proof (cases "no_newer ?h (guard_read_ts g)")
          case True
          show ?thesis
          proof (cases "get_visible_committed B b ?k (guard_read_ts g)")
            case (Inl msg)
            with True latest found None False show ?thesis
              by (auto simp: check_guard_def newer split: option.splits)
          next
            case (Inr vis)
            with get_visible_committed_law [OF assms(1) Inr]
              guard_compare_law [OF refl assms(2), where v = "view b" and k = ?k and c = c and ws = ws] True latest found None False
            show ?thesis
              by (auto simp: check_guard_def newer guard_holds_def split: option.splits sum.splits)
          qed
        next
          case notnew: False
          then obtain t where t: "newest_ts ?h = Some t" "guard_read_ts g < t"
            by (auto simp: newer not_le split: option.splits)
          with top [OF t(1)] assms(2) latest found None False notnew show ?thesis
            by (auto simp: check_guard_def guard_holds_def no_newer_def)
        qed
      qed
    qed
  qed
qed

lemma check_guards_law:
  assumes "valid b" and "set gs \<subseteq> set gs'"
  shows "case check_guards B b c gs of
      Inr _ \<Rightarrow> \<forall>g\<in>set gs. guard_holds (view b) c g
    | Inl err \<Rightarrow> (\<exists>msg. err = batch_error.Backend msg) \<or>
        \<not> (\<forall>g\<in>set gs. guard_holds (view b) c g) \<and> batch_error_reason (view b) c gs' ws err"
  using assms(2)
proof (induction gs)
  case (Cons g gs)
  then have "g \<in> set gs'"
    by simp
  from check_guard_law [OF assms(1) this, where c = c and ws = ws] Cons show ?case
    by (cases "check_guard B b c g"; cases "check_guards B b c gs") auto
qed simp

lemma apply_guarded_batch_refines:
  assumes "valid b"
  shows "batch_refines valid view batch_error.Backend b (apply_guarded_batch B b c gs ws)
    (writes_ok (view b) c ws \<and> gs \<noteq> [] \<and> (\<forall>g\<in>set gs. guard_holds (view b) c g))
    (write_view (view b) c ws) (batch_error_reason (view b) c gs ws)"
proof (cases "ws = [] \<or> gs = [] \<or> \<not> distinct (map pw_key ws)")
  case True
  then show ?thesis
    using assms find_duplicate_count
    by (auto simp: apply_guarded_batch_def batch_refines_def writes_ok_def split: option.splits)
next
  case False
  then have nd: "find_duplicate {} (map pw_key ws) = None"
    by simp
  note glaw = check_guards_law [OF assms order.refl, where c = c and gs = gs and ws = ws]
  note wlaw = validate_writes_law [OF assms refl order.refl, where c = c and ws = ws and gs = gs]
  show ?thesis
  proof (cases "check_guards B b c gs")
    case (Inl err)
    with glaw False assms show ?thesis
      by (auto simp: apply_guarded_batch_def nd batch_refines_def)
  next
    case guards: (Inr u)
    show ?thesis
    proof (cases "validate_writes B b c ws")
      case (Inl err)
      with wlaw guards False assms show ?thesis
        by (auto simp: apply_guarded_batch_def nd batch_refines_def writes_ok_def)
    next
      case (Inr u')
      with glaw wlaw guards False
      have "writes_ok (view b) c ws \<and> gs \<noteq> [] \<and> (\<forall>g\<in>set gs. guard_holds (view b) c g)"
        by (simp add: writes_ok_def)
      from apply_writes_refines [OF assms this] False guards Inr show ?thesis
        by (simp add: apply_guarded_batch_def nd)
    qed
  qed
qed

end

section \<open>Operations on a backend that never fails\<close>

lemma isl_cases: "\<not> isl r \<Longrightarrow> \<exists>x. r = Inr x"
  by (cases r) auto

lemma map_err_not_Err: "\<not> isl (fst out) \<Longrightarrow> fst (case out of (r, b') \<Rightarrow> (map_err f r, b')) \<noteq> Inl e"
  by (cases out; cases "fst out") auto

context total_backend
begin

lemmas read_eqs = get_intent_eq get_latest_commit_ts_eq get_visible_committed_eq

lemma read_eq: "valid b \<Longrightarrow> read B b k ts = Inr (visible_value (vers (view b) k) ts)"
  by (simp add: read_def get_visible_committed_eq visible_value_def)

lemma read_with_version_eq: "valid b \<Longrightarrow> read_with_version B b k ts = Inr (visible (vers (view b) k) ts)"
  by (simp add: read_with_version_def get_visible_committed_eq)

lemma read_own_write_eq:
  "valid b \<Longrightarrow> read_own_write B b k txn s ts =
     Inr (if owns (view b) k txn s then mutation_value (intent_mutation (the (locks (view b) k)))
          else visible_value (vers (view b) k) ts)"
  by (auto simp: read_own_write_def get_intent_eq read_eq owns_def split: option.splits)

lemma prewrite_exact:
  assumes "valid b" and "prewrite B b txn s k m = (r, b')"
  shows "valid b' \<and> (r, view b') = spec_prewrite (view b) txn s k m"
proof -
  have "fst (prewrite B b txn s k m) \<noteq> Inl (prewrite_error.Backend msg)" for msg
    using assms(1)
    by (simp add: prewrite_def read_eqs map_err_not_Err put_intent_total split: option.splits)
  from refines_exact [OF prewrite_refines [OF assms(1)] this] assms(2) show ?thesis
    by simp
qed

lemma commit_exact:
  assumes "valid b" and "commit B b txn k s c = (r, b')"
  shows "valid b' \<and> (r, view b') = spec_commit (view b) txn k s c"
proof -
  have "fst (commit_apply B b txn k s c i) \<noteq> Inl (commit_error.Backend msg)" for msg i
    using assms(1)
    by (simp add: commit_apply_def read_eqs map_err_not_Err commit_intents_batch_total
        split: option.splits)
  then have "fst (commit B b txn k s c) \<noteq> Inl (commit_error.Backend msg)" for msg
    using assms(1) by (simp add: commit_def read_eqs split: option.splits)
  from refines_exact [OF commit_refines [OF assms(1)] this] assms(2) show ?thesis
    by simp
qed

lemma abort_exact:
  assumes "valid b" and "abort B b txn k s = (r, b')"
  shows "valid b' \<and> r = Ok () \<and> view b' = spec_abort (view b) txn k s"
proof -
  have "fst (abort B b txn k s) \<noteq> Inl (abort_error.Backend msg)" for msg
    using isl_cases [OF remove_intent_total [OF assms(1), of k txn s]]
    by (auto simp: abort_def split: prod.splits)
  from refines_exact [OF abort_refines [OF assms(1)] this] assms(2) show ?thesis
    by simp
qed

lemma prewrite_batch_exact:
  assumes "valid b"
  shows "batch_exact valid view b (prewrite_batch B b txn s ws)
    (prewrite_batch_fresh (view b) s ws \<or> prewrite_batch_replay (view b) txn s ws)
    (if prewrite_batch_fresh (view b) s ws then prewrite_view (view b) txn s ws else view b)
    (prewrite_batch_reason (view b) txn s ws)"
proof (rule batch_refines_exact [OF prewrite_batch_refines [OF assms]])
  have "prewrite_batch_validate B b txn s ws' n \<noteq> Inl (batch_prewrite_error.Backend msg)" for ws' n msg
    by (induction ws' arbitrary: n) (auto simp: read_eqs assms split: option.splits)
  then show "fst (prewrite_batch B b txn s ws) \<noteq> Inl (batch_prewrite_error.Backend msg)" for msg
    by (auto simp: prewrite_batch_def map_err_not_Err put_intents_batch_total [OF assms]
        split: option.splits sum.splits)
qed

lemma commit_batch_exact:
  assumes "valid b"
  shows "batch_exact valid view b (commit_batch B b txn s c ks)
    (commit_batch_ok (view b) txn s c ks) (commit_view (view b) c (set ks))
    (commit_batch_reason (view b) txn s c ks)"
proof (rule batch_refines_exact [OF commit_batch_refines [OF assms]])
  have key: "commit_batch_key B b txn s c k \<noteq> Inl (batch_commit_error.Backend msg)" for k msg
    by (auto simp: commit_batch_key_def read_eqs assms split: option.splits)
  have "commit_batch_validate B b txn s c ks' \<noteq> Inl (batch_commit_error.Backend msg)" for ks' msg
  proof (induction ks')
    case (Cons k ks')
    with key [of k msg] show ?case
      by (cases "commit_batch_key B b txn s c k"; cases "commit_batch_validate B b txn s c ks'") auto
  qed simp
  then show "fst (commit_batch B b txn s c ks) \<noteq> Inl (batch_commit_error.Backend msg)" for msg
    by (auto simp: commit_batch_def map_err_not_Err commit_intents_batch_total [OF assms]
        split: option.splits sum.splits)
qed

lemma abort_batch_exact:
  assumes "valid b"
  shows "batch_exact valid view b (abort_batch B b txn s ks)
    (distinct ks) (abort_view (view b) txn s (set ks))
    (\<lambda>err. \<exists>k. err = batch_abort_error.DuplicateKeyInBatch k \<and> 1 < count_list ks k)"
proof (rule batch_refines_exact [OF abort_batch_refines [OF assms]])
  have "abort_batch_collect B b txn s ks' \<noteq> Inl err" for ks' err
    by (induction ks') (auto simp: read_eqs assms split: res_bind_split)
  then show "fst (abort_batch B b txn s ks) \<noteq> Inl (batch_abort_error.Backend msg)" for msg
    by (simp add: abort_batch_def map_err_not_Err remove_intents_batch_total [OF assms]
        split: option.splits sum.splits)
qed

lemma validate_writes_total: "valid b \<Longrightarrow> validate_writes B b c ws \<noteq> Inl (batch_error.Backend msg)"
  by (induction ws) (auto simp: read_eqs split: option.splits)

lemma apply_writes_total: "valid b \<Longrightarrow> fst (apply_writes B b c ws) \<noteq> Inl e"
  by (simp add: apply_writes_def map_err_not_Err put_committed_batch_total)

lemma apply_direct_batch_exact:
  assumes "valid b"
  shows "batch_exact valid view b (apply_direct_batch B b c ws)
    (writes_ok (view b) c ws) (write_view (view b) c ws) (batch_error_reason (view b) c [] ws)"
  by (rule batch_refines_exact [OF apply_direct_batch_refines [OF assms]])
    (auto simp: apply_direct_batch_def validate_writes_total [OF assms] apply_writes_total [OF assms]
      split: option.splits sum.splits)

lemma check_guards_total: "valid b \<Longrightarrow> check_guards B b c gs \<noteq> Inl (batch_error.Backend msg)"
proof (induction gs)
  case (Cons g gs)
  have "guard_compare g v \<noteq> Inl (batch_error.Backend msg)" for v
    by (cases g) auto
  then have "check_guard B b c g \<noteq> Inl (batch_error.Backend msg)"
    using Cons.prems by (auto simp: check_guard_def read_eqs split: option.splits)
  with Cons show ?case
    by (cases "check_guard B b c g") auto
qed simp

lemma apply_guarded_batch_exact:
  assumes "valid b"
  shows "batch_exact valid view b (apply_guarded_batch B b c gs ws)
    (writes_ok (view b) c ws \<and> gs \<noteq> [] \<and> (\<forall>g\<in>set gs. guard_holds (view b) c g))
    (write_view (view b) c ws) (batch_error_reason (view b) c gs ws)"
  by (rule batch_refines_exact [OF apply_guarded_batch_refines [OF assms]])
    (auto simp: apply_guarded_batch_def validate_writes_total [OF assms]
      apply_writes_total [OF assms] check_guards_total [OF assms] split: option.splits sum.splits)

end

end
