(* ===== verification/Mvcc_Gc.thy ===== *)
theory Mvcc_Gc
  imports Mvcc_Engine
begin

text \<open>
  History retention of \<open>engine.rs\<close>: the per-key planner, one step of incremental garbage
  collection, and the deprecated full collection that loops over steps. Budgets are \<open>usize\<close>
  words; \<open>max_keys + 1\<close> and \<open>limit + 1\<close> wrap at \<open>usize::MAX\<close> as in a release build (a build with
  overflow checks panics there instead). Counters of things that exist in memory are \<open>nat\<close>.
\<close>

section \<open>Options, plans and results\<close>

record gc_stats =
  stats_versions_removed :: nat
  stats_intents_preserved :: nat

record gc_budget =
  max_keys :: usize
  max_versions :: usize

record gc_options =
  budget :: gc_budget
  collapse_final_tombstones :: bool

record key_gc_options =
  max_versions_examined :: usize
  plan_collapse_final_tombstones :: bool

record key_gc_plan =
  plan_key :: key
  versions_to_remove :: "timestamp list"
  plan_collapse :: "timestamp option"
  versions_examined :: nat
  plan_complete :: bool

record incremental_gc_cursor =
  next_key :: "key option"

record incremental_gc_result =
  gc_cursor :: incremental_gc_cursor
  gc_done :: bool
  keys_scanned :: nat
  versions_scanned :: nat
  versions_removed :: nat
  intents_preserved :: nat

section \<open>The per-key planner\<close>

definition plan_final_tombstone ::
  "'b backend \<Rightarrow> 'b mvcc_engine \<Rightarrow> key \<Rightarrow> key_gc_options \<Rightarrow> committed_version \<Rightarrow> gc_error + bool" where
  "plan_final_tombstone B e key options keeper =
     (if plan_collapse_final_tombstones options \<and> cv_value keeper = None then
        res_bind (map_err gc_error.Backend (get_intent B e key)) (\<lambda>found.
          if found = None then
            res_bind (map_err gc_error.Backend (get_latest_commit_ts B e key)) (\<lambda>latest.
              Ok (latest = Some (cv_commit_ts keeper)))
          else Ok False)
      else Ok False)"

definition plan_key_gc ::
  "'b backend \<Rightarrow> 'b mvcc_engine \<Rightarrow> key \<Rightarrow> timestamp \<Rightarrow> key_gc_options \<Rightarrow> gc_error + key_gc_plan" where
  "plan_key_gc B e key safe_point_ts options =
     (if max_versions_examined options = 0 then Err gc_error.InvalidKeyGcBudget
      else
        res_bind (map_err gc_error.Backend (get_visible_committed B e key safe_point_ts)) (\<lambda>visible_version.
          case visible_version of
            None \<Rightarrow>
              Ok \<lparr>plan_key = key, versions_to_remove = [], plan_collapse = None,
                  versions_examined = 0, plan_complete = True\<rparr>
          | Some keeper \<Rightarrow>
              res_bind (plan_final_tombstone B e key options keeper) (\<lambda>collapse_final_tombstone.
              res_bind (map_err gc_error.Backend
                  (get_committed_timestamps_before B e key (cv_commit_ts keeper)
                    (max_versions_examined options))) (\<lambda>older.
                let complete = length older < unat (max_versions_examined options);
                    removals = take (unat (max_versions_examined options)) older
                in Ok \<lparr>plan_key = key, versions_to_remove = removals,
                       plan_collapse =
                         (if collapse_final_tombstone \<and> complete
                          then Some (cv_commit_ts keeper) else None),
                       versions_examined = length removals, plan_complete = complete\<rparr>))))"

section \<open>One incremental step\<close>

text \<open>
  The loop over keys keeps four counters; a round of it either goes on to the next key or breaks
  with the key the cursor shall resume from.
\<close>

record gc_acc =
  acc_keys_scanned :: nat
  acc_versions_scanned :: nat
  acc_versions_removed :: nat
  acc_intents_preserved :: nat

datatype gc_flow = NextKey | StopAt key

definition final_tombstone ::
  "'b backend \<Rightarrow> 'b mvcc_engine \<Rightarrow> key \<Rightarrow> gc_options \<Rightarrow> committed_version \<Rightarrow> bool \<Rightarrow> gc_error + bool" where
  "final_tombstone B e key options keeper has_intent =
     (if collapse_final_tombstones options \<and> cv_value keeper = None \<and> \<not> has_intent then
        res_bind (map_err gc_error.Backend (get_latest_commit_ts B e key)) (\<lambda>latest.
          Ok (latest = Some (cv_commit_ts keeper)))
      else Ok False)"

fun gc_remove_versions ::
  "'b backend \<Rightarrow> 'b mvcc_engine \<Rightarrow> key \<Rightarrow> timestamp list \<Rightarrow> gc_acc \<Rightarrow>
   (gc_error + gc_acc) \<times> 'b mvcc_engine" where
  "gc_remove_versions B e key [] acc = (Ok acc, e)"
| "gc_remove_versions B e key (ts # tss) acc =
     (case remove_committed_version B e key ts of
        (Inl msg, e') \<Rightarrow> (Err (gc_error.Backend msg), e')
      | (Inr _, e') \<Rightarrow>
          gc_remove_versions B e' key tss
            (acc\<lparr>acc_versions_removed := acc_versions_removed acc + 1\<rparr>))"

text \<open>The version budget is used up: stop at this key if it still has something to remove.\<close>

definition gc_key_exhausted ::
  "'b backend \<Rightarrow> 'b mvcc_engine \<Rightarrow> key \<Rightarrow> gc_options \<Rightarrow> committed_version \<Rightarrow> bool \<Rightarrow> gc_acc \<Rightarrow>
   gc_error + gc_acc \<times> gc_flow" where
  "gc_key_exhausted B e key options keeper has_intent acc =
     res_bind (map_err gc_error.Backend
         (get_committed_timestamps_before B e key (cv_commit_ts keeper) 1)) (\<lambda>check_more.
       if check_more \<noteq> [] then Ok (acc, StopAt key)
       else
         res_bind (final_tombstone B e key options keeper has_intent) (\<lambda>is_final.
           if is_final then Ok (acc, StopAt key) else Ok (acc, NextKey)))"

text \<open>A final tombstone: collapse it with its whole history if that fits, else shorten the history.\<close>

definition gc_key_final ::
  "'b backend \<Rightarrow> 'b mvcc_engine \<Rightarrow> key \<Rightarrow> committed_version \<Rightarrow> usize \<Rightarrow> gc_acc \<Rightarrow>
   (gc_error + gc_acc \<times> gc_flow) \<times> 'b mvcc_engine" where
  "gc_key_final B e key keeper limit acc =
     (case map_err gc_error.Backend
        (get_committed_timestamps_before B e key (cv_commit_ts keeper) (limit + 1)) of
        Inl err \<Rightarrow> (Err err, e)
      | Inr older_versions \<Rightarrow>
          if length older_versions > unat limit then
            (case gc_remove_versions B e key (butlast older_versions)
               (acc\<lparr>acc_versions_scanned := acc_versions_scanned acc + length older_versions - 1\<rparr>) of
               (Inl err, e') \<Rightarrow> (Err err, e')
             | (Inr acc', e') \<Rightarrow> (Ok (acc', StopAt key), e'))
          else if length older_versions < unat limit then
            (case collapse_tombstone B e key (cv_commit_ts keeper) older_versions of
               (Inl msg, e') \<Rightarrow> (Err (gc_error.Backend msg), e')
             | (Inr _, e') \<Rightarrow>
                 (Ok (acc\<lparr>acc_versions_scanned := acc_versions_scanned acc + length older_versions,
                          acc_versions_removed :=
                            acc_versions_removed acc + (length older_versions + 1)\<rparr>, NextKey), e'))
          else
            (case gc_remove_versions B e key older_versions
               (acc\<lparr>acc_versions_scanned := acc_versions_scanned acc + length older_versions\<rparr>) of
               (Inl err, e') \<Rightarrow> (Err err, e')
             | (Inr acc', e') \<Rightarrow> (Ok (acc', StopAt key), e')))"

definition gc_key_normal ::
  "'b backend \<Rightarrow> 'b mvcc_engine \<Rightarrow> key \<Rightarrow> committed_version \<Rightarrow> usize \<Rightarrow> gc_acc \<Rightarrow>
   (gc_error + gc_acc \<times> gc_flow) \<times> 'b mvcc_engine" where
  "gc_key_normal B e key keeper limit acc =
     (case map_err gc_error.Backend
        (get_committed_timestamps_before B e key (cv_commit_ts keeper) (limit + 1)) of
        Inl err \<Rightarrow> (Err err, e)
      | Inr older \<Rightarrow>
          let has_more = length older > unat limit;
              to_remove = (if has_more then butlast older else older);
              scanned = acc_versions_scanned acc + length older - (if has_more then 1 else 0)
          in (case gc_remove_versions B e key to_remove (acc\<lparr>acc_versions_scanned := scanned\<rparr>) of
                (Inl err, e') \<Rightarrow> (Err err, e')
              | (Inr acc', e') \<Rightarrow> (Ok (acc', if has_more then StopAt key else NextKey), e')))"

text \<open>What is done for a key with a version at or below the safe point, its keeper.\<close>

definition gc_key_keeper ::
  "'b backend \<Rightarrow> 'b mvcc_engine \<Rightarrow> gc_options \<Rightarrow> key \<Rightarrow> committed_version \<Rightarrow> bool \<Rightarrow> gc_acc \<Rightarrow>
   (gc_error + gc_acc \<times> gc_flow) \<times> 'b mvcc_engine" where
  "gc_key_keeper B e options key keeper has_intent acc =
     (let limit = max_versions (budget options) - of_nat (acc_versions_removed acc)
      in if limit = 0 then (gc_key_exhausted B e key options keeper has_intent acc, e)
         else
           (case final_tombstone B e key options keeper has_intent of
              Inl err \<Rightarrow> (Err err, e)
            | Inr is_final_tombstone \<Rightarrow>
                if is_final_tombstone then gc_key_final B e key keeper limit acc
                else gc_key_normal B e key keeper limit acc))"

definition gc_key ::
  "'b backend \<Rightarrow> 'b mvcc_engine \<Rightarrow> timestamp \<Rightarrow> gc_options \<Rightarrow> key \<Rightarrow> gc_acc \<Rightarrow>
   (gc_error + gc_acc \<times> gc_flow) \<times> 'b mvcc_engine" where
  "gc_key B e safe_point_ts options key acc0 =
     (let acc1 = acc0\<lparr>acc_keys_scanned := acc_keys_scanned acc0 + 1\<rparr> in
      case map_err gc_error.Backend (get_intent B e key) of
        Inl err \<Rightarrow> (Err err, e)
      | Inr found \<Rightarrow>
          let has_intent = (found \<noteq> None);
              acc2 = (if has_intent
                      then acc1\<lparr>acc_intents_preserved := acc_intents_preserved acc1 + 1\<rparr> else acc1)
          in (case map_err gc_error.Backend (get_visible_committed B e key safe_point_ts) of
                Inl err \<Rightarrow> (Err err, e)
              | Inr None \<Rightarrow> (Ok (acc2, NextKey), e)
              | Inr (Some keeper) \<Rightarrow>
                  gc_key_keeper B e options key keeper has_intent
                    (acc2\<lparr>acc_versions_scanned := acc_versions_scanned acc2 + 1\<rparr>)))"

fun gc_keys ::
  "'b backend \<Rightarrow> 'b mvcc_engine \<Rightarrow> timestamp \<Rightarrow> gc_options \<Rightarrow> key list \<Rightarrow> gc_acc \<Rightarrow>
   (gc_error + gc_acc \<times> key option) \<times> 'b mvcc_engine" where
  "gc_keys B e safe_point_ts options [] acc = (Ok (acc, None), e)"
| "gc_keys B e safe_point_ts options (k # ks) acc =
     (case gc_key B e safe_point_ts options k acc of
        (Inl err, e') \<Rightarrow> (Err err, e')
      | (Inr (acc', StopAt stop), e') \<Rightarrow> (Ok (acc', Some stop), e')
      | (Inr (acc', NextKey), e') \<Rightarrow> gc_keys B e' safe_point_ts options ks acc')"

definition gc_acc_zero :: gc_acc where
  "gc_acc_zero = \<lparr>acc_keys_scanned = 0, acc_versions_scanned = 0, acc_versions_removed = 0,
                  acc_intents_preserved = 0\<rparr>"

definition gc_incremental ::
  "'b backend \<Rightarrow> 'b mvcc_engine \<Rightarrow> timestamp \<Rightarrow> incremental_gc_cursor option \<Rightarrow> gc_options \<Rightarrow>
   (gc_error + incremental_gc_result) \<times> 'b mvcc_engine" where
  "gc_incremental B e safe_point_ts cursor options =
     (if max_keys (budget options) = 0 \<or> max_versions (budget options) = 0
        then (Err gc_error.InvalidGcBudget, e)
      else
        (case map_err gc_error.Backend
           (keys_from B e (Option.bind cursor next_key) (max_keys (budget options) + 1)) of
           Inl err \<Rightarrow> (Err err, e)
         | Inr keys \<Rightarrow>
             (case gc_keys B e safe_point_ts options
                (take (min (length keys) (unat (max_keys (budget options)))) keys) gc_acc_zero of
                (Inl err, e') \<Rightarrow> (Err err, e')
              | (Inr (acc, stopped), e') \<Rightarrow>
                  let more = length keys > unat (max_keys (budget options));
                      next_cursor_key =
                        (case stopped of
                           Some k \<Rightarrow> Some k
                         | None \<Rightarrow> if more then Some (keys ! unat (max_keys (budget options))) else None)
                  in (Ok \<lparr>gc_cursor = \<lparr>next_key = next_cursor_key\<rparr>,
                          gc_done = (stopped = None \<and> \<not> more),
                          keys_scanned = acc_keys_scanned acc,
                          versions_scanned = acc_versions_scanned acc,
                          versions_removed = acc_versions_removed acc,
                          intents_preserved = acc_intents_preserved acc\<rparr>, e'))))"

section \<open>Full collection\<close>

text \<open>The loop of \<open>gc\<close>: \<open>None\<close> stands for a loop that never ends.\<close>

partial_function (option) gc_loop ::
  "'b backend \<Rightarrow> timestamp \<Rightarrow> gc_options \<Rightarrow> incremental_gc_cursor option \<Rightarrow> nat \<Rightarrow> 'b mvcc_engine \<Rightarrow>
   ((gc_error + nat) \<times> 'b mvcc_engine) option" where
  "gc_loop B safe_point_ts options cursor total_removed e =
     (case gc_incremental B e safe_point_ts cursor options of
        (Inl err, e') \<Rightarrow> Some (Err err, e')
      | (Inr res, e') \<Rightarrow>
          if gc_done res then Some (Ok (total_removed + versions_removed res), e')
          else gc_loop B safe_point_ts options (Some (gc_cursor res)) (total_removed + versions_removed res) e')"

declare gc_loop.simps [code]

fun gc_count_intents :: "'b backend \<Rightarrow> 'b mvcc_engine \<Rightarrow> key list \<Rightarrow> nat \<Rightarrow> gc_error + nat" where
  "gc_count_intents B e [] n = Ok n"
| "gc_count_intents B e (k # ks) n =
     res_bind (map_err gc_error.Backend (get_intent B e k)) (\<lambda>found.
       gc_count_intents B e ks (if found \<noteq> None then n + 1 else n))"

definition gc ::
  "'b backend \<Rightarrow> 'b mvcc_engine \<Rightarrow> timestamp \<Rightarrow> gc_options \<Rightarrow>
   ((gc_error + gc_stats) \<times> 'b mvcc_engine) option" where
  "gc B e safe_point_ts options =
     (case gc_loop B safe_point_ts options None 0 e of
        None \<Rightarrow> None
      | Some (Inl err, e') \<Rightarrow> Some (Err err, e')
      | Some (Inr total_removed, e') \<Rightarrow>
          Some (res_bind (map_err gc_error.Backend (all_keys B e')) (\<lambda>keys.
                  res_bind (gc_count_intents B e' keys 0) (\<lambda>intents.
                    Ok \<lparr>stats_versions_removed = total_removed, stats_intents_preserved = intents\<rparr>)), e'))"

end
