(* ===== verification/Gc_Spec.thy ===== *)
theory Gc_Spec
  imports Mvcc_View
begin

text \<open>
  What garbage collection is meant to do, on histories and views alone: the versions that a safe
  point makes obsolete, the compacted history, and the fact every collector step rests on -
  removing obsolete versions, or a final tombstone with all its history, changes neither the
  compacted form nor what a reader at or above the safe point sees.
\<close>

section \<open>Compaction\<close>

text \<open>Strictly older than the newest version at or below the safe point.\<close>

definition obsolete :: "history \<Rightarrow> timestamp \<Rightarrow> timestamp set" where
  "obsolete h sp = {t \<in> dom h. \<exists>kt. visible_ts h sp = Some kt \<and> t < kt}"

text \<open>The newest version overall is a tombstone at or below the safe point.\<close>

definition ends_in_tombstone :: "history \<Rightarrow> timestamp \<Rightarrow> bool" where
  "ends_in_tombstone h sp \<longleftrightarrow> (\<exists>kt. visible h sp = Some (kt, None) \<and> newest_ts h = Some kt)"

definition compact_history :: "timestamp \<Rightarrow> bool \<Rightarrow> bool \<Rightarrow> history \<Rightarrow> history" where
  "compact_history sp collapse locked h =
     (if collapse \<and> \<not> locked \<and> ends_in_tombstone h sp then Map.empty
      else h |` (- obsolete h sp))"

definition compact_view :: "timestamp \<Rightarrow> bool \<Rightarrow> mvcc_view \<Rightarrow> mvcc_view" where
  "compact_view sp collapse v =
     v\<lparr>vers := (\<lambda>k. compact_history sp collapse (locks v k \<noteq> None) (vers v k))\<rparr>"

definition key_compact :: "timestamp \<Rightarrow> bool \<Rightarrow> mvcc_view \<Rightarrow> key \<Rightarrow> bool" where
  "key_compact sp collapse v k \<longleftrightarrow> vers (compact_view sp collapse v) k = vers v k"

definition total_versions :: "mvcc_view \<Rightarrow> nat" where
  "total_versions v = (\<Sum>k\<in>view_keys v. card (dom (vers v k)))"

text \<open>\<open>v'\<close> comes from \<open>v\<close> by removing versions that compaction would remove.\<close>

definition gc_reduces :: "timestamp \<Rightarrow> bool \<Rightarrow> mvcc_view \<Rightarrow> mvcc_view \<Rightarrow> bool" where
  "gc_reduces sp collapse v v' \<longleftrightarrow>
     compact_view sp collapse v' = compact_view sp collapse v \<and> (\<forall>k. vers v' k \<subseteq>\<^sub>m vers v k)"

section \<open>Removing obsolete versions\<close>

lemma visible_ts_of_visible: "visible_ts h ts = map_option fst (visible h ts)"
  by (cases "visible_ts h ts") (auto simp: visible_def)

lemma obsolete_empty [simp]: "obsolete Map.empty sp = {}"
  by (simp add: obsolete_def)

lemma finite_dom_restrict [simp]: "finite (dom h) \<Longrightarrow> finite (dom (h |` A))"
  by simp

lemma visible_restrict_obsolete:
  assumes "finite (dom h)" and "T \<subseteq> obsolete h sp" and "sp \<le> ts"
  shows "visible (h |` (- T)) ts = visible h ts"
proof (cases "visible h ts")
  case None
  then have "visible (h |` (- T)) ts = None"
    by (auto simp: visible_None_iff)
  with None show ?thesis
    by simp
next
  case (Some p)
  obtain t x where p: "p = (t, x)"
    by (cases p)
  with Some assms(1) have t: "h t = Some x" "t \<le> ts" "\<forall>s\<in>dom h. s \<le> ts \<longrightarrow> s \<le> t"
    by (simp_all add: visible_Some_iff)
  have "t \<notin> T"
  proof
    assume "t \<in> T"
    with assms(2) obtain kt where "visible_ts h sp = Some kt" "t < kt"
      by (auto simp: obsolete_def)
    with t assms show False
      by (auto simp: visible_ts_Some_iff dest!: bspec [where x = kt])
  qed
  with t assms(1) show ?thesis
    unfolding Some p by (subst visible_Some_iff) auto
qed

lemma newest_ts_visible_max: "newest_ts h = visible_ts h (Timestamp (- 1))"
  by (simp add: visible_ts_def restrict_map_def atMost_def)

lemma newest_ts_restrict_obsolete:
  assumes "finite (dom h)" and "T \<subseteq> obsolete h sp"
  shows "newest_ts (h |` (- T)) = newest_ts h"
  by (simp add: newest_ts_visible_max visible_ts_of_visible visible_restrict_obsolete [OF assms])

lemma obsolete_restrict_obsolete:
  assumes "finite (dom h)" and "T \<subseteq> obsolete h sp"
  shows "obsolete (h |` (- T)) sp = obsolete h sp - T"
  using visible_restrict_obsolete [OF assms order.refl]
  by (auto simp: obsolete_def visible_ts_of_visible)

lemma ends_in_tombstone_restrict_obsolete:
  assumes "finite (dom h)" and "T \<subseteq> obsolete h sp"
  shows "ends_in_tombstone (h |` (- T)) sp = ends_in_tombstone h sp"
  by (simp add: ends_in_tombstone_def newest_ts_restrict_obsolete [OF assms]
      visible_restrict_obsolete [OF assms order.refl])

lemma compact_history_restrict_obsolete:
  assumes "finite (dom h)" and "T \<subseteq> obsolete h sp"
  shows "compact_history sp collapse locked (h |` (- T)) = compact_history sp collapse locked h"
proof -
  have "- (obsolete h sp - T) \<inter> - T = - obsolete h sp"
    using assms(2) by auto
  then show ?thesis
    by (simp add: compact_history_def ends_in_tombstone_restrict_obsolete [OF assms]
        obsolete_restrict_obsolete [OF assms] Int_commute)
qed

lemma compact_history_empty [simp]: "compact_history sp collapse locked Map.empty = Map.empty"
  by (simp add: compact_history_def)

lemma compact_history_idem:
  assumes "finite (dom h)"
  shows "compact_history sp c l (compact_history sp c l h) = compact_history sp c l h"
proof (cases "c \<and> \<not> l \<and> ends_in_tombstone h sp")
  case True
  then show ?thesis
    by (simp add: compact_history_def)
next
  case False
  then have "compact_history sp c l h = h |` (- obsolete h sp)"
    by (auto simp: compact_history_def)
  then show ?thesis
    using compact_history_restrict_obsolete [OF assms order.refl] by metis
qed

section \<open>Readers at or above the safe point\<close>

lemma ends_in_tombstone_visible:
  assumes "finite (dom h)" and "ends_in_tombstone h sp" and "sp \<le> ts"
  shows "visible_value h ts = None"
proof -
  from assms(2) obtain kt where kt: "visible h sp = Some (kt, None)" "newest_ts h = Some kt"
    by (auto simp: ends_in_tombstone_def)
  with assms have "visible h ts = Some (kt, None)"
    by (auto simp: visible_Some_iff newest_ts_Some_iff)
  then show ?thesis
    by (simp add: visible_value_def)
qed

text \<open>Compaction never changes the value a reader at or above the safe point gets.\<close>

lemma visible_value_compact:
  assumes "finite (dom h)" and "sp \<le> ts"
  shows "visible_value (compact_history sp c l h) ts = visible_value h ts"
  using assms ends_in_tombstone_visible [OF assms(1) _ assms(2)]
    visible_restrict_obsolete [OF assms(1) order.refl assms(2)]
  by (auto simp: compact_history_def visible_value_def)

text \<open>Without tombstone collapse not even the version it comes from changes.\<close>

lemma visible_compact:
  assumes "finite (dom h)" and "sp \<le> ts"
  shows "visible (compact_history sp False l h) ts = visible h ts"
  using visible_restrict_obsolete [OF assms(1) order.refl assms(2)]
  by (simp add: compact_history_def)

section \<open>Views\<close>

lemma compact_view_locks [simp]: "locks (compact_view sp c v) = locks v"
  by (simp add: compact_view_def)

lemma compact_view_vers:
  "vers (compact_view sp c v) k = compact_history sp c (locks v k \<noteq> None) (vers v k)"
  by (simp add: compact_view_def)

lemma gc_reduces_refl [simp]: "gc_reduces sp c v v"
  by (simp add: gc_reduces_def)

lemma gc_reduces_trans: "gc_reduces sp c u v \<Longrightarrow> gc_reduces sp c v w \<Longrightarrow> gc_reduces sp c u w"
  by (auto simp: gc_reduces_def intro: map_le_trans)

lemma gc_reduces_locks: "gc_reduces sp c v v' \<Longrightarrow> locks v' = locks v"
  unfolding gc_reduces_def by (metis compact_view_locks)

lemma gc_reduces_keys:
  assumes "gc_reduces sp c v v'"
  shows "view_keys v' \<subseteq> view_keys v"
proof -
  have "dom (vers v' k) \<subseteq> dom (vers v k)" for k
    using assms by (intro map_le_implies_dom_le) (simp add: gc_reduces_def)
  then have "committed_keys v' \<subseteq> committed_keys v"
    unfolding subset_iff committed_keys_iff by blast
  then show ?thesis
    by (auto simp: view_keys_def gc_reduces_locks [OF assms])
qed

lemma gc_reduces_compact:
  assumes "gc_reduces sp c v v'" and "\<And>k. key_compact sp c v' k"
  shows "v' = compact_view sp c v"
proof -
  have "vers (compact_view sp c v') = vers v'"
    using assms(2) by (auto simp: key_compact_def)
  then have "compact_view sp c v' = v'"
    by simp
  then show ?thesis
    using assms(1) by (simp add: gc_reduces_def)
qed

lemma gc_reduces_visible_value:
  assumes "gc_reduces sp c v v'" "view_ok v" "view_ok v'" "sp \<le> ts"
  shows "visible_value (vers v' k) ts = visible_value (vers v k) ts"
proof -
  have "compact_view sp c v' = compact_view sp c v"
    using assms(1) by (simp add: gc_reduces_def)
  then have "compact_history sp c (locks v' k \<noteq> None) (vers v' k) =
      compact_history sp c (locks v k \<noteq> None) (vers v k)"
    unfolding compact_view_vers [symmetric] by simp
  then show ?thesis
    using assms(2-4) visible_value_compact view_ok_finite by metis
qed

lemma gc_reduces_visible:
  assumes "gc_reduces sp False v v'" "view_ok v" "view_ok v'" "sp \<le> ts"
  shows "visible (vers v' k) ts = visible (vers v k) ts"
proof -
  have "compact_view sp False v' = compact_view sp False v"
    using assms(1) by (simp add: gc_reduces_def)
  then have "compact_history sp False (locks v' k \<noteq> None) (vers v' k) =
      compact_history sp False (locks v k \<noteq> None) (vers v k)"
    unfolding compact_view_vers [symmetric] by simp
  then show ?thesis
    using assms(2-4) visible_compact view_ok_finite by metis
qed

text \<open>Single removals as reductions, with their effect on the number of versions.\<close>

lemma gc_reduces_remove_obsolete:
  assumes "view_ok v" and "T \<subseteq> obsolete (vers v k) sp"
  shows "gc_reduces sp c v (v_remove_versions k T v)"
proof -
  have "compact_view sp c (v_remove_versions k T v) = compact_view sp c v"
    using assms compact_history_restrict_obsolete
    by (auto simp: compact_view_def v_remove_versions_def fun_eq_iff)
  then show ?thesis
    by (auto simp: gc_reduces_def vers_v_remove_versions map_le_def)
qed

lemma gc_reduces_collapse:
  assumes "view_ok v" and "ends_in_tombstone (vers v k) sp" and "c" and "locks v k = None"
    and "dom (vers v k) \<subseteq> T"
  shows "gc_reduces sp c v (v_remove_versions k T v)"
proof -
  have e: "vers v k |` (- T) = Map.empty"
    using assms(5) by (auto simp: restrict_map_def fun_eq_iff)
  have "compact_view sp c (v_remove_versions k T v) = compact_view sp c v"
    using assms(2-4) by (auto simp: compact_view_def v_remove_versions_def fun_eq_iff e compact_history_def)
  then show ?thesis
    by (auto simp: gc_reduces_def vers_v_remove_versions map_le_def)
qed

lemma total_versions_superset:
  assumes "finite A" and "view_keys v \<subseteq> A"
  shows "total_versions v = (\<Sum>k\<in>A. card (dom (vers v k)))"
  unfolding total_versions_def
  by (rule sum.mono_neutral_left [OF assms]) (auto simp: view_keys_def committed_keys_def)

lemma total_versions_remove:
  assumes "view_ok v" and "T \<subseteq> dom (vers v k)"
  shows "total_versions (v_remove_versions k T v) + card T = total_versions v"
proof -
  let ?v' = "v_remove_versions k T v" and ?A = "insert k (view_keys v)"
  have fin: "finite ?A" "finite (dom (vers v k))"
    using assms(1) by (simp_all add: view_ok_def)
  have sub: "view_keys ?v' \<subseteq> ?A"
    by (auto simp: view_keys_def committed_keys_iff vers_v_remove_versions split: if_splits)
  have "dom (vers ?v' k) = dom (vers v k) - T"
    by (auto simp: vers_v_remove_versions)
  then have k: "card (dom (vers ?v' k)) + card T = card (dom (vers v k))"
    using card_Diff_subset [of T "dom (vers v k)"] card_mono [OF fin(2) assms(2)] assms(2) fin(2)
    by (simp add: finite_subset)
  have "total_versions ?v' + card T =
      card (dom (vers ?v' k)) + (\<Sum>j\<in>view_keys v - {k}. card (dom (vers v j))) + card T"
    using fin by (simp add: total_versions_superset [OF fin(1) sub] sum.insert_remove
        vers_v_remove_versions)
  also have "\<dots> = card (dom (vers v k)) + (\<Sum>j\<in>view_keys v - {k}. card (dom (vers v j)))"
    using k by simp
  also have "\<dots> = total_versions v"
    using fin by (simp add: total_versions_superset [OF fin(1), of v] sum.insert_remove subset_insertI)
  finally show ?thesis .
qed

end
