(* ===== verification/Gc_Laws.thy ===== *)
theory Gc_Laws
  imports Mvcc_Gc Gc_Spec
begin

text \<open>
  Garbage collection on any backend that meets the contract: the planner only names obsolete
  versions, every incremental step removes only what compaction removes (also when it fails half
  way), keeps its budgets, leaves everything behind its cursor compact, and the full loop ends
  with the compacted view.
\<close>

section \<open>Keys in terms of their keeper\<close>

lemma obsolete_keeper:
  assumes "finite (dom h)" and "visible h sp = Some (kt, x)"
  shows "obsolete h sp = set (older_desc h kt)"
  using assms by (auto simp: obsolete_def set_older_desc visible_ts_of_visible)

lemma obsolete_no_keeper: "visible h sp = None \<Longrightarrow> obsolete h sp = {}"
  by (simp add: obsolete_def visible_ts_of_visible)

lemma ends_in_tombstone_keeper:
  "visible h sp = Some (kt, x) \<Longrightarrow> ends_in_tombstone h sp \<longleftrightarrow> x = None \<and> newest_ts h = Some kt"
  by (auto simp: ends_in_tombstone_def)

lemma ends_in_tombstone_no_keeper: "visible h sp = None \<Longrightarrow> \<not> ends_in_tombstone h sp"
  by (simp add: ends_in_tombstone_def)

lemma key_compact_if_empty: "vers v k = Map.empty \<Longrightarrow> key_compact sp c v k"
  by (simp add: key_compact_def compact_view_vers)

lemma key_compact_if_clean:
  assumes "obsolete (vers v k) sp = {}"
    and "\<not> (c \<and> locks v k = None \<and> ends_in_tombstone (vers v k) sp)"
  shows "key_compact sp c v k"
  using assms by (auto simp: key_compact_def compact_view_vers compact_history_def)

lemma key_compact_cong:
  "vers v' k = vers v k \<Longrightarrow> locks v' = locks v \<Longrightarrow> key_compact sp c v' k = key_compact sp c v k"
  by (simp add: key_compact_def compact_view_vers)

lemma v_remove_versions_twice:
  "v_remove_versions k T (v_remove_versions k S v) = v_remove_versions k (S \<union> T) v"
  by (simp add: v_remove_versions_def Int_commute)

lemma v_remove_versions_none [simp]: "v_remove_versions k {} v = v"
  by (simp add: v_remove_versions_def restrict_map_def)

text \<open>One key after all its obsolete versions are gone.\<close>

lemma key_compact_after_removal:
  assumes "view_ok v" and "\<not> (c \<and> locks v k = None \<and> ends_in_tombstone (vers v k) sp)"
  shows "key_compact sp c (v_remove_versions k (obsolete (vers v k) sp) v) k"
proof (rule key_compact_if_clean)
  let ?h = "vers v k"
  have fin: "finite (dom ?h)"
    using assms(1) by simp
  show "obsolete (vers (v_remove_versions k (obsolete ?h sp) v) k) sp = {}"
    by (simp add: vers_v_remove_versions obsolete_restrict_obsolete [OF fin order.refl])
  show "\<not> (c \<and> locks (v_remove_versions k (obsolete ?h sp) v) k = None \<and>
      ends_in_tombstone (vers (v_remove_versions k (obsolete ?h sp) v) k) sp)"
    using assms(2)
    by (simp add: vers_v_remove_versions ends_in_tombstone_restrict_obsolete [OF fin order.refl])
qed

section \<open>What a round of the collector guarantees\<close>

text \<open>
  Whatever the outcome: the state stays valid, only versions that compaction removes are gone, and
  only keys of \<open>ks\<close> are touched.
\<close>

definition gc_safe ::
  "('b \<Rightarrow> bool) \<Rightarrow> ('b \<Rightarrow> mvcc_view) \<Rightarrow> timestamp \<Rightarrow> bool \<Rightarrow> key set \<Rightarrow> 'b \<Rightarrow> 'b \<Rightarrow> bool" where
  "gc_safe valid view sp c ks e e' \<longleftrightarrow>
     valid e' \<and> gc_reduces sp c (view e) (view e') \<and>
     (\<forall>j. j \<notin> ks \<longrightarrow> vers (view e') j = vers (view e) j)"

text \<open>Counters on success: what the counter gained is what the store lost, within the budget.\<close>

definition gc_counted :: "('b \<Rightarrow> mvcc_view) \<Rightarrow> nat \<Rightarrow> 'b \<Rightarrow> nat \<Rightarrow> 'b \<Rightarrow> nat \<Rightarrow> bool" where
  "gc_counted view mv e n e' n' \<longleftrightarrow>
     total_versions (view e') + n' = total_versions (view e) + n \<and> n' \<le> mv"

lemma gc_safe_refl: "valid e \<Longrightarrow> gc_safe valid view sp c ks e e"
  by (simp add: gc_safe_def)

lemma gc_safe_trans:
  "gc_safe valid view sp c ks e e' \<Longrightarrow> gc_safe valid view sp c ks' e' e'' \<Longrightarrow>
   gc_safe valid view sp c (ks \<union> ks') e e''"
  by (auto simp: gc_safe_def intro: gc_reduces_trans)

lemma gc_safe_mono: "gc_safe valid view sp c ks e e' \<Longrightarrow> ks \<subseteq> ks' \<Longrightarrow> gc_safe valid view sp c ks' e e'"
  by (auto simp: gc_safe_def)

lemma gc_safe_valid: "gc_safe valid view sp c ks e e' \<Longrightarrow> valid e'"
  by (simp add: gc_safe_def)

lemma gc_safe_locks: "gc_safe valid view sp c ks e e' \<Longrightarrow> locks (view e') = locks (view e)"
  by (auto simp: gc_safe_def dest: gc_reduces_locks)

lemma gc_safe_key_compact:
  "gc_safe valid view sp c ks e e' \<Longrightarrow> k \<notin> ks \<Longrightarrow>
   key_compact sp c (view e') k = key_compact sp c (view e) k"
  by (rule key_compact_cong) (auto simp: gc_safe_locks gc_safe_def)

lemma gc_safe_view_keys: "gc_safe valid view sp c ks e e' \<Longrightarrow> view_keys (view e') \<subseteq> view_keys (view e)"
  by (auto simp: gc_safe_def dest: gc_reduces_keys)

text \<open>The same for one key, with what the round says about going on.\<close>

definition gc_key_post ::
  "('b \<Rightarrow> bool) \<Rightarrow> ('b \<Rightarrow> mvcc_view) \<Rightarrow> timestamp \<Rightarrow> bool \<Rightarrow> nat \<Rightarrow> key \<Rightarrow> 'b \<Rightarrow> gc_acc \<Rightarrow>
   (gc_error + gc_acc \<times> gc_flow) \<times> 'b \<Rightarrow> bool" where
  "gc_key_post valid view sp c mv k e acc out \<longleftrightarrow>
     (case out of (r, e') \<Rightarrow>
        gc_safe valid view sp c {k} e e' \<and>
        (\<forall>acc' flow. r = Inr (acc', flow) \<longrightarrow>
           acc_keys_scanned acc' = acc_keys_scanned acc \<and>
           acc_intents_preserved acc' = acc_intents_preserved acc \<and>
           gc_counted view mv e (acc_versions_removed acc) e' (acc_versions_removed acc') \<and>
           (case flow of
              NextKey \<Rightarrow> key_compact sp c (view e') k
            | StopAt s \<Rightarrow> s = k \<and> acc_versions_removed acc' = mv)))"

text \<open>And for a run over a page of keys.\<close>

definition gc_keys_post ::
  "('b \<Rightarrow> bool) \<Rightarrow> ('b \<Rightarrow> mvcc_view) \<Rightarrow> timestamp \<Rightarrow> bool \<Rightarrow> nat \<Rightarrow> key list \<Rightarrow> 'b \<Rightarrow> gc_acc \<Rightarrow>
   (gc_error + gc_acc \<times> key option) \<times> 'b \<Rightarrow> bool" where
  "gc_keys_post valid view sp c mv ks e acc out \<longleftrightarrow>
     (case out of (r, e') \<Rightarrow>
        gc_safe valid view sp c (set ks) e e' \<and>
        (\<forall>acc' stopped. r = Inr (acc', stopped) \<longrightarrow>
           gc_counted view mv e (acc_versions_removed acc) e' (acc_versions_removed acc') \<and>
           acc_keys_scanned acc' \<le> acc_keys_scanned acc + length ks \<and>
           (case stopped of
              None \<Rightarrow>
                acc_keys_scanned acc' = acc_keys_scanned acc + length ks \<and>
                acc_intents_preserved acc' =
                  acc_intents_preserved acc + length (filter (\<lambda>k. locks (view e) k \<noteq> None) ks) \<and>
                (\<forall>k\<in>set ks. key_compact sp c (view e') k)
            | Some s \<Rightarrow>
                s \<in> set ks \<and> acc_versions_removed acc' = mv \<and>
                (\<forall>k\<in>set ks. k < s \<longrightarrow> key_compact sp c (view e') k))))"

lemma gc_keys_post_Cons:
  assumes "gc_key_post valid view sp c mv k e
      (acc\<lparr>acc_keys_scanned := acc_keys_scanned acc + 1,
           acc_intents_preserved := acc_intents_preserved acc + of_bool (locks (view e) k \<noteq> None)\<rparr>)
      (Inr (acc1, NextKey), e1)"
    and "gc_keys_post valid view sp c mv ks e1 acc1 out"
    and "strict_sorted_list (k # ks)"
  shows "gc_keys_post valid view sp c mv (k # ks) e acc out"
proof -
  obtain r e' where out: "out = (r, e')"
    by (cases out)
  from assms(1) have safe1: "gc_safe valid view sp c {k} e e1" and k: "key_compact sp c (view e1) k"
    by (simp_all add: gc_key_post_def)
  from assms(2) have safe2: "gc_safe valid view sp c (set ks) e1 e'"
    by (simp add: gc_keys_post_def out)
  have safe: "gc_safe valid view sp c (set (k # ks)) e e'"
    using gc_safe_trans [OF safe1 safe2] by simp
  have k': "key_compact sp c (view e') k"
    using k gc_safe_key_compact [OF safe2, of k] assms(3) by auto
  show ?thesis
    using assms(1,2) safe k'
    by (auto simp: gc_keys_post_def gc_key_post_def gc_counted_def out gc_safe_locks [OF safe1]
        split: option.splits)
qed

section \<open>Laws of the steps\<close>

text \<open>What is left of a version budget after \<open>n\<close> removals.\<close>

lemma budget_left:
  fixes w :: usize
  assumes "n \<le> unat w" and "w \<noteq> - 1"
  shows "n + unat (w - of_nat n) = unat w" and "w - of_nat n \<noteq> - 1"
proof -
  show "n + unat (w - of_nat n) = unat w"
    using unat_minus_of_nat [OF assms(1)] assms(1) by simp
  then have le: "w - of_nat n \<le> w"
    by (simp add: word_le_nat_alt)
  show "w - of_nat n \<noteq> - 1"
  proof
    assume "w - of_nat n = - 1"
    with le have "- 1 \<le> w"
      by simp
    with assms(2) show False
      using word_order.extremum_unique [of w] by blast
  qed
qed

context backend_contract
begin

text \<open>Both tests for a final tombstone decide the specified condition.\<close>

lemma final_tombstone_law:
  assumes "valid e" and "visible (vers (view e) k) sp = Some (kt, x)"
    and "final_tombstone B e k options (as_version k (kt, x)) (locks (view e) k \<noteq> None) = Inr b"
  shows "b \<longleftrightarrow> collapse_final_tombstones options \<and> locks (view e) k = None \<and>
    ends_in_tombstone (vers (view e) k) sp"
  using assms(3) get_latest_commit_ts_law [OF assms(1)]
  by (auto simp: final_tombstone_def as_version_def ends_in_tombstone_keeper [OF assms(2)]
      res_bind_eq_Ok split: if_splits)

lemma plan_final_tombstone_law:
  assumes "valid e" and "visible (vers (view e) k) sp = Some (kt, x)"
    and "plan_final_tombstone B e k options (as_version k (kt, x)) = Inr b"
  shows "b \<longleftrightarrow> plan_collapse_final_tombstones options \<and> locks (view e) k = None \<and>
    ends_in_tombstone (vers (view e) k) sp"
  using assms(3) get_latest_commit_ts_law [OF assms(1)] get_intent_law [OF assms(1)]
  by (auto simp: plan_final_tombstone_def as_version_def ends_in_tombstone_keeper [OF assms(2)]
      res_bind_eq_Ok split: if_splits)

lemma remove_version_safe:
  assumes "valid e" and "remove_committed_version B e k t = (r, e')"
    and "t \<in> obsolete (vers (view e) k) sp"
  shows "gc_safe valid view sp c {k} e e'"
  using remove_committed_version_law [OF assms(1), of k t]
    gc_reduces_remove_obsolete [OF valid_view_ok [OF assms(1)], of "{t}" k sp c] assms(2,3)
  by (auto simp: atomic_step_def gc_safe_def vers_v_remove_versions)

lemma gc_remove_versions_law:
  assumes "valid e" and "set tss \<subseteq> obsolete (vers (view e) k) sp" and "distinct tss"
    and "gc_remove_versions B e k tss acc = (r, e')"
  shows "gc_safe valid view sp c {k} e e' \<and>
    (\<forall>acc'. r = Inr acc' \<longrightarrow>
       view e' = v_remove_versions k (set tss) (view e) \<and>
       acc' = acc\<lparr>acc_versions_removed := acc_versions_removed acc + length tss\<rparr>)"
  using assms
proof (induction tss arbitrary: e acc)
  case Nil
  then show ?case
    by (auto simp: gc_safe_refl)
next
  case (Cons t tss)
  obtain r1 e1 where rm: "remove_committed_version B e k t = (r1, e1)"
    by (cases "remove_committed_version B e k t")
  have fin: "finite (dom (vers (view e) k))"
    using valid_view_ok [OF Cons.prems(1)] by simp
  from Cons.prems have t: "t \<in> obsolete (vers (view e) k) sp"
    by simp
  have safe: "gc_safe valid view sp c {k} e e1"
    using remove_version_safe [OF Cons.prems(1) rm t] .
  show ?case
  proof (cases r1)
    case (Inl msg)
    with rm safe Cons.prems(4) show ?thesis
      by auto
  next
    case (Inr u)
    with rm have v1: "view e1 = v_remove_versions k {t} (view e)"
      using remove_committed_version_law [OF Cons.prems(1), of k t] by (auto simp: atomic_step_def)
    have "set tss \<subseteq> obsolete (vers (view e1) k) sp"
      using Cons.prems(2,3) t
      by (auto simp: v1 vers_v_remove_versions obsolete_restrict_obsolete [OF fin, of "{t}"])
    moreover have "gc_remove_versions B e1 k tss
        (acc\<lparr>acc_versions_removed := acc_versions_removed acc + 1\<rparr>) = (r, e')"
      using Cons.prems(4) rm Inr by simp
    ultimately have IH: "gc_safe valid view sp c {k} e1 e' \<and>
        (\<forall>acc'. r = Inr acc' \<longrightarrow> view e' = v_remove_versions k (set tss) (view e1) \<and>
          acc' = acc\<lparr>acc_versions_removed := acc_versions_removed acc + length (t # tss)\<rparr>)"
      using Cons.IH [OF gc_safe_valid [OF safe]] Cons.prems(3) by fastforce
    then show ?thesis
      using gc_safe_trans [OF safe, of "{k}"] by (auto simp: v1 v_remove_versions_twice)
  qed
qed

text \<open>Removing the newest \<open>n\<close> versions below the keeper.\<close>

lemma gc_remove_older:
  assumes "valid e" and "visible (vers (view e) k) sp = Some (kt, x)"
    and "gc_remove_versions B e k (take n (older_desc (vers (view e) k) kt)) acc = (r, e')"
    and "n \<le> length (older_desc (vers (view e) k) kt)"
    and "acc_versions_removed acc + n \<le> mv"
  shows "gc_safe valid view sp c {k} e e'"
    and "r = Inr acc' \<Longrightarrow>
      acc' = acc\<lparr>acc_versions_removed := acc_versions_removed acc + n\<rparr> \<and>
      gc_counted view mv e (acc_versions_removed acc) e' (acc_versions_removed acc + n) \<and>
      view e' = v_remove_versions k (set (take n (older_desc (vers (view e) k) kt))) (view e)"
proof -
  let ?h = "vers (view e) k"
  let ?T = "take n (older_desc ?h kt)"
  note ok = valid_view_ok [OF assms(1)]
  have fin: "finite (dom ?h)"
    using ok by simp
  have sub: "set ?T \<subseteq> obsolete ?h sp" "distinct ?T" "length ?T = n"
    using assms(4) by (auto simp: obsolete_keeper [OF fin assms(2)] distinct_older_desc dest: in_set_takeD)
  note law = gc_remove_versions_law [OF assms(1) sub(1,2) assms(3)]
  then show "gc_safe valid view sp c {k} e e'"
    by blast
  assume "r = Inr acc'"
  with law [of c] sub(3) have acc': "acc' = acc\<lparr>acc_versions_removed := acc_versions_removed acc + n\<rparr>"
    and v': "view e' = v_remove_versions k (set ?T) (view e)"
    by auto
  have "total_versions (view e') + card (set ?T) = total_versions (view e)"
    unfolding v' by (rule total_versions_remove [OF ok]) (use sub(1) in \<open>auto simp: obsolete_def\<close>)
  then show "acc' = acc\<lparr>acc_versions_removed := acc_versions_removed acc + n\<rparr> \<and>
      gc_counted view mv e (acc_versions_removed acc) e' (acc_versions_removed acc + n) \<and>
      view e' = v_remove_versions k (set ?T) (view e)"
    using assms(5) v' distinct_card [OF sub(2)] sub(3) by (simp add: acc' gc_counted_def)
qed

lemma gc_key_exhausted_law:
  assumes "valid e" and "visible (vers (view e) k) sp = Some (kt, x)" and "acc_versions_removed acc = mv"
  shows "gc_key_post valid view sp (collapse_final_tombstones options) mv k e acc
    (gc_key_exhausted B e k options (as_version k (kt, x)) (locks (view e) k \<noteq> None) acc, e)"
proof -
  let ?h = "vers (view e) k"
  have fin: "finite (dom ?h)"
    using valid_view_ok [OF assms(1)] by simp
  have "key_compact sp (collapse_final_tombstones options) (view e) k"
    if "get_committed_timestamps_before B e k kt 1 = Inr []"
      and "final_tombstone B e k options (as_version k (kt, x)) (locks (view e) k \<noteq> None) = Inr False"
    using get_committed_timestamps_before_law [OF assms(1) that(1)]
      final_tombstone_law [OF assms(1,2) that(2)]
    by (intro key_compact_if_clean) (auto simp: obsolete_keeper [OF fin assms(2)])
  then show ?thesis
    using assms(1,3)
    by (auto simp: gc_key_post_def gc_key_exhausted_def gc_safe_refl gc_counted_def as_version_def
        res_bind_eq_Ok split: if_splits)
qed

lemma gc_key_normal_law:
  assumes "valid e" and "visible (vers (view e) k) sp = Some (kt, x)"
    and "\<not> (c \<and> locks (view e) k = None \<and> ends_in_tombstone (vers (view e) k) sp)"
    and "limit \<noteq> - 1" and "acc_versions_removed acc + unat limit = mv"
  shows "gc_key_post valid view sp c mv k e acc
    (gc_key_normal B e k (as_version k (kt, x)) limit acc)"
proof (cases "get_committed_timestamps_before B e k kt (limit + 1)")
  case (Inl msg)
  with assms(1) show ?thesis
    by (simp add: gc_key_normal_def gc_key_post_def gc_safe_refl as_version_def)
next
  case (Inr older)
  let ?d = "older_desc (vers (view e) k) kt"
  define n where "n = min (unat limit) (length ?d)"
  have fin: "finite (dom (vers (view e) k))"
    using valid_view_ok [OF assms(1)] by simp
  have older: "older = take (Suc (unat limit)) ?d"
    using get_committed_timestamps_before_law [OF assms(1) Inr] unat_plus_one [OF assms(4)] by simp
  define more where "more \<longleftrightarrow> unat limit < length ?d"
  have rm: "(if unat limit < length older then butlast older else older) = take n ?d"
    unfolding older n_def by (rule take_Suc_cut)
  have more: "unat limit < length older \<longleftrightarrow> more"
    by (auto simp: older more_def)
  obtain scanned where eq: "gc_key_normal B e k (as_version k (kt, x)) limit acc =
      (case gc_remove_versions B e k (take n ?d) (acc\<lparr>acc_versions_scanned := scanned\<rparr>) of
         (Inl err, e') \<Rightarrow> (Err err, e')
       | (Inr acc', e') \<Rightarrow> (Ok (acc', if more then StopAt k else NextKey), e'))"
    using Inr rm more by (auto simp: gc_key_normal_def as_version_def Let_def)
  obtain r e' where g: "gc_remove_versions B e k (take n ?d) (acc\<lparr>acc_versions_scanned := scanned\<rparr>) = (r, e')"
    by fastforce
  note step = gc_remove_older [OF assms(1,2) g, of mv]
  have n: "n \<le> length ?d" "acc_versions_removed (acc\<lparr>acc_versions_scanned := scanned\<rparr>) + n \<le> mv"
    using assms(5) by (auto simp: n_def)
  have compact: "key_compact sp c (v_remove_versions k (set (take n ?d)) (view e)) k" if "\<not> more"
    using key_compact_after_removal [OF valid_view_ok [OF assms(1)] assms(3)] that
    by (simp add: more_def n_def obsolete_keeper [OF fin assms(2)])
  have full: "acc_versions_removed acc + n = mv" if "more"
    using that assms(5) by (simp add: more_def n_def)
  show ?thesis
  proof (cases r)
    case (Inl err)
    then show ?thesis
      unfolding eq g using step(1) [OF n] by (simp add: gc_key_post_def)
  next
    case (Inr acc')
    then show ?thesis
      unfolding eq g using step(1) [OF n] step(2) [OF n Inr] compact full
      by (simp add: gc_key_post_def)
  qed
qed

lemma collapse_tombstone_safe:
  assumes "valid e" and "visible (vers (view e) k) sp = Some (kt, x)"
    and "c \<and> locks (view e) k = None \<and> ends_in_tombstone (vers (view e) k) sp"
    and "collapse_tombstone B e k kt (older_desc (vers (view e) k) kt) = (r, e')"
  shows "gc_safe valid view sp c {k} e e'"
    and "\<not> isl r \<Longrightarrow> vers (view e') k = Map.empty \<and>
      total_versions (view e') + Suc (length (older_desc (vers (view e) k) kt)) = total_versions (view e)"
proof -
  let ?h = "vers (view e) k"
  let ?T = "insert kt (set (older_desc ?h kt))"
  note ok = valid_view_ok [OF assms(1)]
  have fin: "finite (dom ?h)"
    using ok by simp
  have "newest_ts ?h = Some kt"
    using assms(3) by (simp add: ends_in_tombstone_keeper [OF assms(2)])
  then have T: "?T = dom ?h"
    using fin by (auto simp: newest_ts_Some_iff set_older_desc order.strict_iff_order)
  have law: "valid e'" "view e' = (if isl r then view e else v_remove_versions k ?T (view e))"
    using collapse_tombstone_law [OF assms(1), of k kt "older_desc ?h kt"] assms(4)
    by (simp_all add: atomic_step_def)
  have "gc_reduces sp c (view e) (v_remove_versions k ?T (view e))"
    using assms(3) T by (intro gc_reduces_collapse [OF ok]) auto
  then show "gc_safe valid view sp c {k} e e'"
    using law by (simp add: gc_safe_def vers_v_remove_versions)
  have "kt \<notin> set (older_desc ?h kt)"
    using fin by (simp add: set_older_desc)
  then have card: "card ?T = Suc (length (older_desc ?h kt))"
    by (simp add: distinct_card distinct_older_desc)
  have none: "?h |` (- dom ?h) = Map.empty"
    by (auto simp: restrict_map_def fun_eq_iff)
  assume "\<not> isl r"
  then show "vers (view e') k = Map.empty \<and>
      total_versions (view e') + Suc (length (older_desc ?h kt)) = total_versions (view e)"
    using law(2) total_versions_remove [OF ok, of ?T k] card
    by (simp add: T none vers_v_remove_versions)
qed

lemma gc_key_final_law:
  assumes "valid e" and "visible (vers (view e) k) sp = Some (kt, x)"
    and "c \<and> locks (view e) k = None \<and> ends_in_tombstone (vers (view e) k) sp"
    and "limit \<noteq> - 1" and "acc_versions_removed acc + unat limit = mv"
  shows "gc_key_post valid view sp c mv k e acc
    (gc_key_final B e k (as_version k (kt, x)) limit acc)"
proof (cases "get_committed_timestamps_before B e k kt (limit + 1)")
  case (Inl msg)
  with assms(1) show ?thesis
    by (simp add: gc_key_final_def gc_key_post_def gc_safe_refl as_version_def)
next
  case (Inr older)
  let ?d = "older_desc (vers (view e) k) kt"
  have older: "older = take (Suc (unat limit)) ?d"
    using get_committed_timestamps_before_law [OF assms(1) Inr] unat_plus_one [OF assms(4)] by simp
  show ?thesis
  proof (cases "length ?d < unat limit")
    case True
    then have "older = ?d"
      by (simp add: older)
    obtain r e' where g: "collapse_tombstone B e k kt ?d = (r, e')"
      by fastforce
    note step = collapse_tombstone_safe [OF assms(1-3) g]
    show ?thesis
      using step key_compact_if_empty [of "view e'" k sp c] True Inr g assms(5)
      by (auto simp: gc_key_final_def gc_key_post_def as_version_def \<open>older = ?d\<close> gc_counted_def
          split: sum.splits)
  next
    case False
    then have rm: "(if unat limit < length older then butlast older else older) = take (unat limit) ?d"
      unfolding older take_Suc_cut by (simp add: min_def)
    obtain scanned where eq: "gc_key_final B e k (as_version k (kt, x)) limit acc =
        (case gc_remove_versions B e k (take (unat limit) ?d) (acc\<lparr>acc_versions_scanned := scanned\<rparr>) of
           (Inl err, e') \<Rightarrow> (Err err, e') | (Inr acc', e') \<Rightarrow> (Ok (acc', StopAt k), e'))"
      using Inr rm False older
      by (cases "unat limit < length older") (auto simp: gc_key_final_def as_version_def Let_def)
    obtain r e' where g:
      "gc_remove_versions B e k (take (unat limit) ?d) (acc\<lparr>acc_versions_scanned := scanned\<rparr>) = (r, e')"
      by fastforce
    have n: "unat limit \<le> length ?d"
      "acc_versions_removed (acc\<lparr>acc_versions_scanned := scanned\<rparr>) + unat limit \<le> mv"
      using False assms(5) by auto
    note step = gc_remove_older [OF assms(1,2) g n]
    show ?thesis
    proof (cases r)
      case (Inl err)
      then show ?thesis
        unfolding eq g using step(1) by (simp add: gc_key_post_def)
    next
      case (Inr acc')
      then show ?thesis
        unfolding eq g using step(1) step(2) [OF Inr] assms(5) by (simp add: gc_key_post_def)
    qed
  qed
qed

lemma gc_key_keeper_law:
  assumes "valid e" and "visible (vers (view e) k) sp = Some (kt, x)"
    and "max_versions (budget options) \<noteq> - 1"
    and "acc_versions_removed acc \<le> unat (max_versions (budget options))"
  shows "gc_key_post valid view sp (collapse_final_tombstones options)
    (unat (max_versions (budget options))) k e acc
    (gc_key_keeper B e options k (as_version k (kt, x)) (locks (view e) k \<noteq> None) acc)"
    (is "gc_key_post valid view sp ?c ?mv k e acc _")
proof -
  define limit where "limit = max_versions (budget options) - of_nat (acc_versions_removed acc)"
  have limit: "acc_versions_removed acc + unat limit = ?mv" and nomax: "limit \<noteq> - 1"
    using budget_left [OF assms(4,3)] by (simp_all add: limit_def)
  note laws = gc_key_final_law [OF assms(1,2) _ nomax limit] gc_key_normal_law [OF assms(1,2) _ nomax limit]
  let ?keeper = "as_version k (kt, x)" and ?locked = "locks (view e) k \<noteq> None"
  show ?thesis
  proof (cases "limit = 0")
    case True
    with limit have "acc_versions_removed acc = ?mv"
      by simp
    with True show ?thesis
      using gc_key_exhausted_law [OF assms(1,2)] by (simp add: gc_key_keeper_def limit_def [symmetric])
  next
    case False
    then have eq: "gc_key_keeper B e options k ?keeper ?locked acc =
        (case final_tombstone B e k options ?keeper ?locked of Inl err \<Rightarrow> (Err err, e)
         | Inr b \<Rightarrow> if b then gc_key_final B e k ?keeper limit acc else gc_key_normal B e k ?keeper limit acc)"
      by (simp add: gc_key_keeper_def limit_def [symmetric] Let_def)
    show ?thesis
    proof (cases "final_tombstone B e k options ?keeper ?locked")
      case (Inl err)
      with assms(1) show ?thesis
        unfolding eq by (simp add: gc_key_post_def gc_safe_refl)
    next
      case (Inr b)
      then show ?thesis
        unfolding eq Inr using final_tombstone_law [OF assms(1,2) Inr] laws [of ?c] by simp
    qed
  qed
qed

text \<open>A whole round for one key.\<close>

lemma gc_key_law:
  assumes "valid e" and "max_versions (budget options) \<noteq> - 1"
    and "acc_versions_removed acc \<le> unat (max_versions (budget options))"
  shows "gc_key_post valid view sp (collapse_final_tombstones options)
    (unat (max_versions (budget options))) k e
    (acc\<lparr>acc_keys_scanned := acc_keys_scanned acc + 1,
         acc_intents_preserved := acc_intents_preserved acc + of_bool (locks (view e) k \<noteq> None)\<rparr>)
    (gc_key B e sp options k acc)"
    (is "gc_key_post valid view sp ?c ?mv k e ?acc _")
proof (cases "get_intent B e k")
  case (Inl msg)
  with assms(1) show ?thesis
    by (simp add: gc_key_def gc_key_post_def gc_safe_refl)
next
  case intent: (Inr found)
  then have found: "found = locks (view e) k"
    by (rule get_intent_law [OF assms(1)])
  show ?thesis
  proof (cases "get_visible_committed B e k sp")
    case (Inl msg)
    with assms(1) intent show ?thesis
      by (simp add: gc_key_def gc_key_post_def gc_safe_refl Let_def)
  next
    case visible: (Inr kp)
    then have kp: "kp = map_option (as_version k) (visible (vers (view e) k) sp)"
      by (rule get_visible_committed_law [OF assms(1)])
    show ?thesis
    proof (cases "visible (vers (view e) k) sp")
      case None
      then have "key_compact sp ?c (view e) k"
        by (intro key_compact_if_clean) (simp_all add: obsolete_no_keeper ends_in_tombstone_no_keeper)
      with None kp assms(1,3) intent visible show ?thesis
        by (auto simp: gc_key_def gc_key_post_def gc_safe_refl gc_counted_def Let_def found)
    next
      case (Some p)
      obtain kt x where p: "p = (kt, x)"
        by (cases p)
      define acc3 where "acc3 = ?acc\<lparr>acc_versions_scanned := acc_versions_scanned ?acc + 1\<rparr>"
      have eq: "gc_key B e sp options k acc =
          gc_key_keeper B e options k (as_version k (kt, x)) (locks (view e) k \<noteq> None) acc3"
        using intent visible kp Some p by (simp add: gc_key_def Let_def found acc3_def)
      show ?thesis
        using gc_key_keeper_law [OF assms(1) Some [unfolded p] assms(2), of acc3] assms(3)
        unfolding eq by (simp add: gc_key_post_def acc3_def)
    qed
  qed
qed

text \<open>The loop over the keys of a page.\<close>

lemma gc_keys_law:
  assumes "valid e" and "max_versions (budget options) \<noteq> - 1"
    and "acc_versions_removed acc \<le> unat (max_versions (budget options))" and "strict_sorted_list ks"
  shows "gc_keys_post valid view sp (collapse_final_tombstones options)
    (unat (max_versions (budget options))) ks e acc (gc_keys B e sp options ks acc)"
  using assms(1,3,4)
proof (induction ks arbitrary: e acc)
  case Nil
  then show ?case
    by (simp add: gc_keys_post_def gc_safe_refl gc_counted_def)
next
  case (Cons k ks)
  let ?c = "collapse_final_tombstones options" and ?mv = "unat (max_versions (budget options))"
  obtain r1 e1 where g: "gc_key B e sp options k acc = (r1, e1)"
    by fastforce
  note post = gc_key_law [OF Cons.prems(1) assms(2) Cons.prems(2), of sp k, unfolded g]
  have safe: "gc_safe valid view sp ?c {k} e e1"
    using post by (simp add: gc_key_post_def)
  then have safe': "gc_safe valid view sp ?c (set (k # ks)) e e1"
    by (rule gc_safe_mono) simp
  consider (fails) err where "r1 = Inl err" | (stops) acc1 s where "r1 = Inr (acc1, StopAt s)"
    | (goes_on) acc1 where "r1 = Inr (acc1, NextKey)"
    by (metis gc_flow.exhaust sum.exhaust surj_pair)
  then show ?case
  proof cases
    case fails
    with safe' g show ?thesis
      by (simp add: gc_keys_post_def)
  next
    case stops
    with safe' g Cons.prems(3) post show ?thesis
      by (auto simp: gc_keys_post_def gc_key_post_def)
  next
    case goes_on
    have "acc_versions_removed acc1 \<le> ?mv"
      using post goes_on by (simp add: gc_key_post_def gc_counted_def)
    then have "gc_keys_post valid view sp ?c ?mv ks e1 acc1 (gc_keys B e1 sp options ks acc1)"
      using Cons.IH [OF gc_safe_valid [OF safe]] Cons.prems(3) by simp
    then show ?thesis
      using gc_keys_post_Cons [OF post [unfolded goes_on] _ Cons.prems(3)] g goes_on by simp
  qed
qed

end

section \<open>One incremental step\<close>

text \<open>A budget that is positive and does not wrap when the code adds one.\<close>

definition budget_ok :: "gc_budget \<Rightarrow> bool" where
  "budget_ok bu \<longleftrightarrow>
     max_keys bu \<noteq> 0 \<and> max_versions bu \<noteq> 0 \<and> max_keys bu \<noteq> - 1 \<and> max_versions bu \<noteq> - 1"

text \<open>At or after the key a cursor points to.\<close>

definition from_key :: "key option \<Rightarrow> key \<Rightarrow> bool" where
  "from_key start k \<longleftrightarrow> (\<forall>s. start = Some s \<longrightarrow> s \<le> k)"

definition gc_step_post ::
  "('b \<Rightarrow> bool) \<Rightarrow> ('b \<Rightarrow> mvcc_view) \<Rightarrow> timestamp \<Rightarrow> gc_options \<Rightarrow> key option \<Rightarrow> 'b \<Rightarrow>
   (gc_error + incremental_gc_result) \<times> 'b \<Rightarrow> bool" where
  "gc_step_post valid view sp options start e out \<longleftrightarrow>
     (case out of (r, e') \<Rightarrow>
        gc_safe valid view sp (collapse_final_tombstones options) {k. from_key start k} e e' \<and>
        (\<forall>res. r = Inr res \<longrightarrow>
           total_versions (view e') + versions_removed res = total_versions (view e) \<and>
           versions_removed res \<le> unat (max_versions (budget options)) \<and>
           keys_scanned res \<le> unat (max_keys (budget options)) \<and>
           (case next_key (gc_cursor res) of
              None \<Rightarrow> gc_done res \<and>
                (\<forall>k. from_key start k \<longrightarrow> key_compact sp (collapse_final_tombstones options) (view e') k)
            | Some nk \<Rightarrow> \<not> gc_done res \<and> nk \<in> view_keys (view e) \<and> from_key start nk \<and>
                (\<forall>k. from_key start k \<and> k < nk \<longrightarrow>
                   key_compact sp (collapse_final_tombstones options) (view e') k) \<and>
                (0 < versions_removed res \<or> (\<exists>k\<in>view_keys (view e). from_key start k \<and> k < nk)))))"

text \<open>The page of keys a step works on, as the beginning of a sorted list of all keys in question.\<close>

definition keys_in_range :: "mvcc_view \<Rightarrow> key option \<Rightarrow> key list" where
  "keys_in_range v start = filter (from_key start) (sorted_list_of_set (view_keys v))"

lemma keys_in_range_facts:
  assumes "view_ok v"
  shows "strict_sorted_list (keys_in_range v start)"
    and "set (keys_in_range v start) = {k \<in> view_keys v. from_key start k}"
    and "v_keys_from v start n = take n (keys_in_range v start)"
  using assms by (simp_all add: keys_in_range_def v_keys_from_def view_ok_def strict_sorted_filter
      from_key_def [abs_def])

lemma key_compact_outside: "k \<notin> view_keys v \<Longrightarrow> key_compact sp c v k"
  by (rule key_compact_if_empty) (auto simp: view_keys_def committed_keys_def)

text \<open>From the run over a page to the result of the step.\<close>

definition page_result :: "nat \<Rightarrow> key list \<Rightarrow> gc_acc \<Rightarrow> key option \<Rightarrow> incremental_gc_result" where
  "page_result n ks acc stopped =
     \<lparr>gc_cursor = \<lparr>next_key = (case stopped of Some k \<Rightarrow> Some k
                              | None \<Rightarrow> if n < length ks then Some (ks ! n) else None)\<rparr>,
      gc_done = (stopped = None \<and> \<not> n < length ks), keys_scanned = acc_keys_scanned acc,
      versions_scanned = acc_versions_scanned acc, versions_removed = acc_versions_removed acc,
      intents_preserved = acc_intents_preserved acc\<rparr>"

lemma gc_step_post_page:
  fixes options :: gc_options
  defines "n \<equiv> unat (max_keys (budget options))" and "mv \<equiv> unat (max_versions (budget options))"
    and "c \<equiv> collapse_final_tombstones options"
  assumes "view_ok (view e)" and "0 < n" and "0 < mv"
    and "gc_keys_post valid view sp c mv (take n ks) e gc_acc_zero (Inr (acc, stopped), e')"
    and "ks = take (Suc n) (keys_in_range (view e) start)"
  shows "gc_step_post valid view sp options start e (Inr (page_result n ks acc stopped), e')"
proof -
  let ?K = "keys_in_range (view e) start"
  note facts = keys_in_range_facts [OF assms(4), of start]
  have tk: "take n ks = take n ?K"
    using assms(8) by simp
  note post = assms(7) [unfolded tk]
  have sub: "set (take n ?K) \<subseteq> {k. from_key start k}"
    using facts(2) by (auto dest: in_set_takeD)
  from post have safe: "gc_safe valid view sp c {k. from_key start k} e e'"
    by (auto simp: gc_keys_post_def intro: gc_safe_mono [OF _ sub])
  have counts: "total_versions (view e') + acc_versions_removed acc = total_versions (view e)"
    "acc_versions_removed acc \<le> mv" "acc_keys_scanned acc \<le> n"
    using post by (auto simp: gc_keys_post_def gc_counted_def gc_acc_zero_def)
  have below: "k \<in> view_keys (view e') \<Longrightarrow> from_key start k \<Longrightarrow> s \<in> set (take (Suc n) ?K) \<Longrightarrow> k < s \<Longrightarrow>
      k \<in> set (take n ?K)" for k s
    using strict_sorted_take_below [OF facts(1)] gc_safe_view_keys [OF safe] facts(2) by blast
  show ?thesis
  proof (cases stopped)
    case (Some s)
    then have s: "s \<in> set (take n ?K)" "acc_versions_removed acc = mv"
      "\<And>k. k \<in> set (take n ?K) \<Longrightarrow> k < s \<Longrightarrow> key_compact sp c (view e') k"
      using post by (auto simp: gc_keys_post_def)
    have "s \<in> set (take (Suc n) ?K)" "s \<in> set ?K"
      using s(1) set_take_subset_set_take [of n "Suc n" ?K] by (auto dest: in_set_takeD)
    then have "key_compact sp c (view e') k" if "from_key start k" "k < s" for k
      using that s(3) below key_compact_outside by blast
    then show ?thesis
      using safe counts s(1,2) \<open>s \<in> set ?K\<close> assms(6) facts(2) Some
      by (auto simp: gc_step_post_def page_result_def n_def mv_def c_def)
  next
    case None
    then have all: "\<And>k. k \<in> set (take n ?K) \<Longrightarrow> key_compact sp c (view e') k"
      using post by (auto simp: gc_keys_post_def)
    show ?thesis
    proof (cases "n < length ?K")
      case True
      let ?s = "?K ! n"
      have s: "?s \<in> set (take (Suc n) ?K)" "?s \<in> set ?K" "?K ! 0 < ?s" "?K ! 0 \<in> set ?K"
        using True assms(5) sorted_wrt_nth_less [OF facts(1), of 0 n] nth_mem [of 0 ?K]
        by (auto simp: take_Suc_conv_app_nth intro!: nth_mem)
      then have "key_compact sp c (view e') k" if "from_key start k" "k < ?s" for k
        using that all below key_compact_outside by blast
      then show ?thesis
        using safe counts s facts(2) None True assms(8)
        by (auto simp: gc_step_post_def page_result_def n_def mv_def c_def)
    next
      case False
      then have "key_compact sp c (view e') k" if "from_key start k" for k
        using that all key_compact_outside gc_safe_view_keys [OF safe] facts(2) by fastforce
      then show ?thesis
        using safe counts None False assms(8)
        by (auto simp: gc_step_post_def page_result_def n_def mv_def c_def)
    qed
  qed
qed

context backend_contract
begin

lemma gc_incremental_law:
  assumes "valid e" and "budget_ok (budget options)"
  shows "gc_step_post valid view sp options (Option.bind cursor next_key) e
    (gc_incremental B e sp cursor options)"
proof -
  let ?start = "Option.bind cursor next_key" and ?c = "collapse_final_tombstones options"
  let ?n = "unat (max_keys (budget options))" and ?mv = "unat (max_versions (budget options))"
  have bu: "max_keys (budget options) \<noteq> 0" "max_versions (budget options) \<noteq> 0"
    "max_keys (budget options) \<noteq> - 1" "max_versions (budget options) \<noteq> - 1"
    using assms(2) by (simp_all add: budget_ok_def)
  note ok = valid_view_ok [OF assms(1)]
  show ?thesis
  proof (cases "keys_from B e ?start (max_keys (budget options) + 1)")
    case (Inl msg)
    with assms(1) bu show ?thesis
      by (simp add: gc_incremental_def gc_step_post_def gc_safe_refl)
  next
    case (Inr ks)
    then have ks: "ks = take (Suc ?n) (keys_in_range (view e) ?start)"
      using keys_from_law [OF assms(1) Inr] unat_plus_one [OF bu(3)] keys_in_range_facts(3) [OF ok]
      by simp
    note facts = keys_in_range_facts [OF ok, of ?start]
    have tk: "take (min (length ks) ?n) ks = take ?n ks"
      by (simp add: min_def)
    obtain r e' where g: "gc_keys B e sp options (take ?n ks) gc_acc_zero = (r, e')"
      by fastforce
    have "strict_sorted_list (take ?n ks)"
      using facts(1) by (simp add: ks sorted_wrt_take)
    moreover have "acc_versions_removed gc_acc_zero \<le> ?mv"
      by (simp add: gc_acc_zero_def)
    ultimately have post: "gc_keys_post valid view sp ?c ?mv (take ?n ks) e gc_acc_zero (r, e')"
      using gc_keys_law [OF assms(1) bu(4)] g by metis
    show ?thesis
    proof (cases r)
      case (Inl err)
      have "set (take ?n ks) \<subseteq> {k. from_key ?start k}"
        using facts(2) by (auto simp: ks dest!: in_set_takeD)
      with Inl post bu Inr show ?thesis
        by (auto simp: gc_incremental_def tk g gc_step_post_def gc_keys_post_def intro: gc_safe_mono)
    next
      case R: (Inr p)
      obtain acc stopped where p: "p = (acc, stopped)"
        by (cases p)
      have "gc_incremental B e sp cursor options = (Inr (page_result ?n ks acc stopped), e')"
        using bu Inr R g by (simp add: gc_incremental_def tk p Let_def page_result_def)
      then show ?thesis
        using gc_step_post_page [OF ok _ _ post [unfolded R p] ks] bu by (simp add: unat_gt_0)
    qed
  qed
qed

end

section \<open>The full collection\<close>

text \<open>Every step that is not the last removes a version or moves the cursor over a key.\<close>

definition gc_work :: "mvcc_view \<Rightarrow> key option \<Rightarrow> nat \<times> nat" where
  "gc_work v start = (total_versions v, card {k \<in> view_keys v. from_key start k})"

lemma gc_work_decreases:
  assumes "gc_step_post valid view sp options start e (Inr res, e')" and "view_ok (view e)"
    and "\<not> gc_done res"
  shows "gc_work (view e') (next_key (gc_cursor res)) < gc_work (view e) start"
proof -
  obtain nk where nk: "next_key (gc_cursor res) = Some nk" "from_key start nk"
    "total_versions (view e') + versions_removed res = total_versions (view e)"
    "0 < versions_removed res \<or> (\<exists>k\<in>view_keys (view e). from_key start k \<and> k < nk)"
    and safe: "gc_safe valid view sp (collapse_final_tombstones options) {k. from_key start k} e e'"
    using assms(1,3) by (auto simp: gc_step_post_def split: option.splits)
  show ?thesis
  proof (cases "0 < versions_removed res")
    case True
    with nk(3) show ?thesis
      by (simp add: gc_work_def)
  next
    case False
    let ?L = "{k \<in> view_keys (view e'). from_key (Some nk) k}" and ?R = "{k \<in> view_keys (view e). from_key start k}"
    obtain k where k: "k \<in> view_keys (view e)" "from_key start k" "k < nk"
      using False nk(4) by auto
    have "?L \<subseteq> ?R"
      using gc_safe_view_keys [OF safe] nk(2) by (auto simp: from_key_def)
    moreover have "k \<in> ?R" "k \<notin> ?L"
      using k by (auto simp: from_key_def)
    ultimately have "card ?L < card ?R"
      using assms(2) by (intro psubset_card_mono) (auto simp: view_ok_def)
    with False nk(1,3) show ?thesis
      by (simp add: gc_work_def)
  qed
qed

context backend_contract
begin

lemma gc_loop_law:
  assumes "valid e" and "budget_ok (budget options)"
    and "\<And>k. \<not> from_key (Option.bind cursor next_key) k \<Longrightarrow>
      key_compact sp (collapse_final_tombstones options) (view e) k"
  shows "\<exists>r e'. gc_loop B sp options cursor n e = Some (r, e') \<and>
    gc_safe valid view sp (collapse_final_tombstones options) UNIV e e' \<and>
    (\<forall>m. r = Inr m \<longrightarrow> total_versions (view e') + m = total_versions (view e) + n \<and>
       (\<forall>k. key_compact sp (collapse_final_tombstones options) (view e') k))"
  using assms(1,3)
proof (induction "gc_work (view e) (Option.bind cursor next_key)" arbitrary: e cursor n rule: less_induct)
  case less
  let ?start = "Option.bind cursor next_key" and ?c = "collapse_final_tombstones options"
  obtain r1 e1 where g: "gc_incremental B e sp cursor options = (r1, e1)"
    by fastforce
  note post = gc_incremental_law [OF less.prems(1) assms(2), of sp cursor, unfolded g]
  then have safe: "gc_safe valid view sp ?c {k. from_key ?start k} e e1"
    by (simp add: gc_step_post_def)
  then have safe': "gc_safe valid view sp ?c UNIV e e1"
    by (rule gc_safe_mono) simp
  note gc_loop.simps [of B sp options cursor n e, unfolded g, simp]
  show ?case
  proof (cases r1)
    case (Inl err)
    with safe' show ?thesis
      by simp
  next
    case (Inr res)
    note post = post [unfolded Inr]
    have old: "key_compact sp ?c (view e1) k" if "\<not> from_key ?start k" for k
      using that gc_safe_key_compact [OF safe, of k] less.prems(2) by simp
    show ?thesis
    proof (cases "gc_done res")
      case True
      with post have "total_versions (view e1) + versions_removed res = total_versions (view e)"
        "\<And>k. from_key ?start k \<Longrightarrow> key_compact sp ?c (view e1) k"
        by (auto simp: gc_step_post_def split: option.splits)
      with True Inr safe' old show ?thesis
        by auto
    next
      case False
      let ?cur = "Some (gc_cursor res)"
      obtain nk where nk: "next_key (gc_cursor res) = Some nk" "from_key ?start nk"
        "total_versions (view e1) + versions_removed res = total_versions (view e)"
        "\<And>k. from_key ?start k \<Longrightarrow> k < nk \<Longrightarrow> key_compact sp ?c (view e1) k"
        using False post by (auto simp: gc_step_post_def split: option.splits)
      have "gc_work (view e1) (Option.bind ?cur next_key) < gc_work (view e) ?start"
        using gc_work_decreases [OF post valid_view_ok [OF less.prems(1)] False] by simp
      moreover have "key_compact sp ?c (view e1) k" if "\<not> from_key (Option.bind ?cur next_key) k" for k
        using that old nk by (cases "from_key ?start k") (auto simp: from_key_def)
      ultimately obtain r e' where
        "gc_loop B sp options ?cur (n + versions_removed res) e1 = Some (r, e')"
        "gc_safe valid view sp ?c UNIV e1 e'"
        "\<forall>m. r = Inr m \<longrightarrow> total_versions (view e') + m = total_versions (view e1) + (n + versions_removed res) \<and>
           (\<forall>k. key_compact sp ?c (view e') k)"
        using less.hyps [OF _ gc_safe_valid [OF safe]] by blast
      with False Inr nk(3) show ?thesis
        using gc_safe_trans [OF safe', of UNIV e'] by auto
    qed
  qed
qed

lemma gc_count_intents_law:
  assumes "valid e" and "gc_count_intents B e ks n = Inr m"
  shows "m = n + length (filter (\<lambda>k. locks (view e) k \<noteq> None) ks)"
  using assms(2)
proof (induction ks arbitrary: n)
  case (Cons k ks)
  then obtain found where found: "get_intent B e k = Inr found"
    and rest: "gc_count_intents B e ks (if found \<noteq> None then n + 1 else n) = Inr m"
    by (auto simp: res_bind_eq_Ok)
  show ?case
    using Cons.IH [OF rest] get_intent_law [OF assms(1) found] by simp
qed simp

text \<open>The full collection returns, and on success it has produced exactly the compacted view.\<close>

lemma gc_law:
  assumes "valid e" and "budget_ok (budget options)"
  shows "\<exists>r e'. gc B e sp options = Some (r, e') \<and>
    gc_safe valid view sp (collapse_final_tombstones options) UNIV e e' \<and>
    (\<forall>stats. r = Inr stats \<longrightarrow>
       view e' = compact_view sp (collapse_final_tombstones options) (view e) \<and>
       total_versions (view e') + stats_versions_removed stats = total_versions (view e) \<and>
       stats_intents_preserved stats = card (dom (locks (view e))))"
proof -
  let ?c = "collapse_final_tombstones options"
  obtain r1 e' where loop: "gc_loop B sp options None 0 e = Some (r1, e')"
    and safe: "gc_safe valid view sp ?c UNIV e e'"
    and ok: "\<And>m. r1 = Inr m \<Longrightarrow> total_versions (view e') + m = total_versions (view e) \<and>
       (\<forall>k. key_compact sp ?c (view e') k)"
    using gc_loop_law [OF assms, of None sp 0] by (auto simp: from_key_def)
  have valid': "valid e'"
    using safe by (rule gc_safe_valid)
  show ?thesis
  proof (cases r1)
    case (Inl err)
    with loop safe show ?thesis
      by (simp add: gc_def)
  next
    case (Inr m)
    have "view e' = compact_view sp ?c (view e)"
      using safe ok [OF Inr] by (intro gc_reduces_compact) (auto simp: gc_safe_def)
    moreover have "n = card (dom (locks (view e)))"
      if "all_keys B e' = Inr ks" "gc_count_intents B e' ks 0 = Inr n" for ks n
    proof -
      have fin: "finite (view_keys (view e'))"
        using valid_view_ok [OF valid'] by (simp add: view_ok_def)
      have ks: "ks = sorted_list_of_set (view_keys (view e'))"
        using all_keys_law [OF valid' that(1)] .
      have "n = length (filter (\<lambda>k. locks (view e') k \<noteq> None) ks)"
        using gc_count_intents_law [OF valid' that(2)] by simp
      also have "\<dots> = card (set (filter (\<lambda>k. locks (view e') k \<noteq> None) ks))"
        by (rule distinct_card [symmetric]) (simp add: ks)
      also have "set (filter (\<lambda>k. locks (view e') k \<noteq> None) ks) = dom (locks (view e))"
        using fin gc_safe_locks [OF safe] by (auto simp: ks view_keys_def)
      finally show ?thesis .
    qed
    ultimately show ?thesis
      using loop safe ok [OF Inr] Inr by (auto simp: gc_def res_bind_eq_Ok)
  qed
qed

text \<open>The planner names obsolete versions only, as many as it may, and collapses soundly.\<close>

lemma plan_key_gc_law:
  assumes "valid e" and "plan_key_gc B e k sp options = Inr plan"
  shows "plan_key plan = k \<and> distinct (versions_to_remove plan) \<and>
    set (versions_to_remove plan) \<subseteq> obsolete (vers (view e) k) sp \<and>
    versions_examined plan = length (versions_to_remove plan) \<and>
    versions_examined plan \<le> unat (max_versions_examined options) \<and>
    (if plan_complete plan then set (versions_to_remove plan) = obsolete (vers (view e) k) sp
     else versions_examined plan = unat (max_versions_examined options)) \<and>
    plan_collapse plan =
      (if plan_complete plan \<and> plan_collapse_final_tombstones options \<and> locks (view e) k = None \<and>
          ends_in_tombstone (vers (view e) k) sp
       then newest_ts (vers (view e) k) else None)"
proof -
  let ?h = "vers (view e) k" and ?n = "unat (max_versions_examined options)"
  have fin: "finite (dom ?h)"
    using valid_view_ok [OF assms(1)] by simp
  from assms(2) obtain kp where kp: "get_visible_committed B e k sp = Inr kp"
    by (auto simp: plan_key_gc_def res_bind_eq_Ok split: if_splits)
  then have kp': "kp = map_option (as_version k) (visible ?h sp)"
    by (rule get_visible_committed_law [OF assms(1)])
  show ?thesis
  proof (cases "visible ?h sp")
    case None
    with assms(2) kp kp' show ?thesis
      by (auto simp: plan_key_gc_def obsolete_no_keeper ends_in_tombstone_no_keeper split: if_splits)
  next
    case (Some p)
    obtain kt x where p: "p = (kt, x)"
      by (cases p)
    note keeper = Some [unfolded p]
    obtain b older where b: "plan_final_tombstone B e k options (as_version k (kt, x)) = Inr b"
      and older: "get_committed_timestamps_before B e k kt (max_versions_examined options) = Inr older"
      and plan: "plan = \<lparr>plan_key = k, versions_to_remove = take ?n older,
        plan_collapse = (if b \<and> length older < ?n then Some kt else None),
        versions_examined = length (take ?n older), plan_complete = (length older < ?n)\<rparr>"
      using assms(2) kp kp' keeper
      by (auto simp: plan_key_gc_def res_bind_eq_Ok as_version_def Let_def split: if_splits)
    have older': "older = take ?n (older_desc ?h kt)"
      using get_committed_timestamps_before_law [OF assms(1) older] .
    show ?thesis
      using plan_final_tombstone_law [OF assms(1) keeper b]
      by (auto simp: plan older' obsolete_keeper [OF fin keeper] distinct_older_desc
          ends_in_tombstone_keeper [OF keeper] dest: in_set_takeD)
  qed
qed

text \<open>Carrying out a plan is a reduction, and a complete plan compacts its key.\<close>

lemma plan_key_gc_apply:
  assumes "valid e" and "plan_key_gc B e k sp options = Inr plan"
    and "v' = v_remove_versions k (set_option (plan_collapse plan) \<union> set (versions_to_remove plan)) (view e)"
  shows "gc_reduces sp (plan_collapse_final_tombstones options) (view e) v' \<and>
    (plan_complete plan \<longrightarrow> key_compact sp (plan_collapse_final_tombstones options) v' k)"
proof -
  let ?h = "vers (view e) k" and ?c = "plan_collapse_final_tombstones options"
  note law = plan_key_gc_law [OF assms(1,2)]
  note ok = valid_view_ok [OF assms(1)]
  show ?thesis
  proof (cases "plan_complete plan \<and> ?c \<and> locks (view e) k = None \<and> ends_in_tombstone ?h sp")
    case True
    then obtain kt where kt: "visible ?h sp = Some (kt, None)" "newest_ts ?h = Some kt"
      by (auto simp: ends_in_tombstone_def)
    have T: "set_option (plan_collapse plan) \<union> set (versions_to_remove plan) = dom ?h"
      using law True kt ok
      by (auto simp: obsolete_keeper [OF _ kt(1)] set_older_desc newest_ts_Some_iff order.strict_iff_order)
    have "?h |` (- dom ?h) = Map.empty"
      by (auto simp: restrict_map_def fun_eq_iff)
    then show ?thesis
      using True gc_reduces_collapse [OF ok, of k sp ?c "dom ?h"]
      by (auto simp: assms(3) T vers_v_remove_versions intro: key_compact_if_empty)
  next
    case False
    then have "plan_collapse plan = None"
      using law by auto
    then show ?thesis
      using law False gc_reduces_remove_obsolete [OF ok, of "set (versions_to_remove plan)" k sp ?c]
        key_compact_after_removal [OF ok, of ?c k sp]
      by (auto simp: assms(3))
  qed
qed

end

section \<open>Where no call of the collector fails\<close>

context history_store
begin

lemma gc_remove_versions_total: "valid e \<Longrightarrow> \<not> isl (fst (gc_remove_versions B e k tss acc))"
proof (induction tss arbitrary: e acc)
  case (Cons t tss)
  have "valid (snd (remove_committed_version B e k t))"
    using remove_committed_version_law [OF Cons.prems, of k t] by (auto simp: atomic_step_def split: prod.splits)
  then show ?case
    using Cons.IH history_removals(1) [OF Cons.prems, of k t]
    by (auto split: prod.splits sum.splits)
qed simp

lemma final_tombstone_total: "valid e \<Longrightarrow> \<not> isl (final_tombstone B e k options keeper locked)"
  by (simp add: final_tombstone_def history_answers)

lemma gc_key_total:
  assumes "valid e"
  shows "\<not> isl (fst (gc_key B e sp options k acc))"
proof -
  have exhausted: "\<not> isl (gc_key_exhausted B e k options keeper locked acc')" for keeper locked acc'
    using final_tombstone_total [OF assms, of k options keeper locked]
    by (cases "final_tombstone B e k options keeper locked")
      (auto simp: gc_key_exhausted_def history_answers [OF assms])
  have "\<not> isl (fst (gc_key_final B e k keeper limit acc'))" for keeper limit acc'
    using gc_remove_versions_total [OF assms] history_removals(2) [OF assms]
    by (auto simp: gc_key_final_def history_answers [OF assms] split: prod.splits sum.splits)
       (metis fst_conv isl_def)+
  moreover have "\<not> isl (fst (gc_key_normal B e k keeper limit acc'))" for keeper limit acc'
    using gc_remove_versions_total [OF assms]
    by (auto simp: gc_key_normal_def history_answers [OF assms] Let_def split: prod.splits sum.splits)
       (metis fst_conv isl_def)+
  ultimately have "\<not> isl (fst (gc_key_keeper B e options k keeper locked acc'))" for keeper locked acc'
    using exhausted final_tombstone_total [OF assms, of k options keeper locked]
    by (auto simp: gc_key_keeper_def Let_def split: sum.splits)
  then show ?thesis
    by (auto simp: gc_key_def Let_def history_answers [OF assms]
        split: option.splits)
qed

lemma gc_keys_total:
  assumes "valid e" and "max_versions (budget options) \<noteq> - 1"
    and "acc_versions_removed acc \<le> unat (max_versions (budget options))"
  shows "\<not> isl (fst (gc_keys B e sp options ks acc))"
  using assms(1,3)
proof (induction ks arbitrary: e acc)
  case (Cons k ks)
  obtain r1 e1 where g: "gc_key B e sp options k acc = (r1, e1)"
    by fastforce
  note post = gc_key_law [OF Cons.prems(1) assms(2) Cons.prems(2), of sp k, unfolded g]
  have "\<not> isl r1"
    using gc_key_total [OF Cons.prems(1), of sp options k acc] g by simp
  then obtain acc1 flow where r1: "r1 = Inr (acc1, flow)"
    by (cases r1) auto
  have "valid e1" "acc_versions_removed acc1 \<le> unat (max_versions (budget options))"
    using post by (simp_all add: gc_key_post_def r1 gc_safe_def gc_counted_def)
  then show ?case
    using Cons.IH g r1 by (cases flow) auto
qed simp

lemma gc_incremental_total:
  assumes "valid e" and "budget_ok (budget options)"
  obtains res e' where "gc_incremental B e sp cursor options = (Inr res, e')"
proof -
  let ?ks = "v_keys_from (view e) (Option.bind cursor next_key) (unat (max_keys (budget options) + 1))"
  let ?page = "take (min (length ?ks) (unat (max_keys (budget options)))) ?ks"
  have "\<not> isl (fst (gc_keys B e sp options ?page gc_acc_zero))"
    using assms by (intro gc_keys_total) (simp_all add: budget_ok_def gc_acc_zero_def)
  then obtain acc stopped e' where "gc_keys B e sp options ?page gc_acc_zero = (Inr (acc, stopped), e')"
    by (cases "gc_keys B e sp options ?page gc_acc_zero"; cases "fst (gc_keys B e sp options ?page gc_acc_zero)")
      auto
  then show ?thesis
    using assms(2) that [of _ e']
    by (simp add: gc_incremental_def history_answers [OF assms(1)] budget_ok_def Let_def)
qed

lemma gc_loop_total:
  assumes "valid e" and "budget_ok (budget options)" and "gc_loop B sp options cursor n e = Some (r, e')"
  shows "\<not> isl r"
  using assms(1,3)
proof (induction "gc_work (view e) (Option.bind cursor next_key)" arbitrary: e cursor n rule: less_induct)
  case less
  obtain res e1 where g: "gc_incremental B e sp cursor options = (Inr res, e1)"
    using gc_incremental_total [OF less.prems(1) assms(2)] .
  note post = gc_incremental_law [OF less.prems(1) assms(2), of sp cursor, unfolded g]
  then have e1: "valid e1"
    by (simp add: gc_step_post_def gc_safe_def)
  show ?case
  proof (cases "gc_done res")
    case True
    then show ?thesis
      using less.prems(2) g by (subst (asm) gc_loop.simps) auto
  next
    case False
    then have "gc_loop B sp options (Some (gc_cursor res)) (n + versions_removed res) e1 = Some (r, e')"
      using less.prems(2) g by (subst (asm) gc_loop.simps) simp
    moreover have "gc_work (view e1) (Option.bind (Some (gc_cursor res)) next_key) <
        gc_work (view e) (Option.bind cursor next_key)"
      using gc_work_decreases [OF post valid_view_ok [OF less.prems(1)] False] by simp
    ultimately show ?thesis
      using less.hyps e1 by blast
  qed
qed

lemma gc_count_intents_total: "valid e \<Longrightarrow> \<not> isl (gc_count_intents B e ks n)"
  by (induction ks arbitrary: n) (simp_all add: history_answers)

lemma gc_exact:
  assumes "valid e" and "budget_ok (budget options)"
  obtains stats e' where "gc B e sp options = Some (Inr stats, e')" and "valid e'"
    and "view e' = compact_view sp (collapse_final_tombstones options) (view e)"
    and "total_versions (view e') + stats_versions_removed stats = total_versions (view e)"
    and "stats_intents_preserved stats = card (dom (locks (view e)))"
proof -
  obtain r e' where g: "gc B e sp options = Some (r, e')"
    and safe: "gc_safe valid view sp (collapse_final_tombstones options) UNIV e e'"
    and ok: "\<And>stats. r = Inr stats \<Longrightarrow>
       view e' = compact_view sp (collapse_final_tombstones options) (view e) \<and>
       total_versions (view e') + stats_versions_removed stats = total_versions (view e) \<and>
       stats_intents_preserved stats = card (dom (locks (view e)))"
    using gc_law [OF assms] by blast
  have valid': "valid e'"
    using safe by (rule gc_safe_valid)
  from g obtain r1 where loop: "gc_loop B sp options None 0 e = Some (r1, e')"
    by (auto simp: gc_def split: option.splits prod.splits sum.splits)
  then obtain m where "r1 = Inr m"
    using gc_loop_total [OF assms loop] by (cases r1) auto
  then have "r = res_bind (gc_count_intents B e' (sorted_list_of_set (view_keys (view e'))) 0)
      (\<lambda>i. Ok \<lparr>stats_versions_removed = m, stats_intents_preserved = i\<rparr>)"
    using g loop by (simp add: gc_def history_answers [OF valid'])
  then obtain stats where "r = Inr stats"
    using gc_count_intents_total [OF valid', of "sorted_list_of_set (view_keys (view e'))" 0]
    by (cases "gc_count_intents B e' (sorted_list_of_set (view_keys (view e'))) 0") auto
  then show ?thesis
    using that g valid' ok by blast
qed

end

end
