(* ===== verification/Mvcc_Schedule.thy ===== *)
theory Mvcc_Schedule
  imports Engine_Laws Gc_Laws
begin

text \<open>
  Sequences of engine calls. The schedule language and its two interpreters are those of the test
  support module; underneath, a transition system on views says which changes an action may make.
  Every backend that meets the contract simulates it, so what holds of its runs by rule
  induction holds of all schedules: the intent invariant, immutable versions, stable snapshots.
\<close>

section \<open>Schedules\<close>

datatype action =
    DirectBatch timestamp "physical_write list"
  | GuardedBatch timestamp "read_guard list" "physical_write list"
  | Prewrite txn_id timestamp key mutation
  | Commit txn_id key timestamp timestamp
  | Abort txn_id key timestamp
  | PrewriteBatch txn_id timestamp "physical_write list"
  | CommitBatch txn_id timestamp timestamp "key list"
  | AbortBatch txn_id timestamp "key list"
  | Gc timestamp

definition schedule_gc_options :: gc_options where
  "schedule_gc_options =
     \<lparr>budget = \<lparr>max_keys = 10000, max_versions = 10000\<rparr>, collapse_final_tombstones = False\<rparr>"

text \<open>\<open>.map_err(|_| ())\<close> on the result of a call, \<open>None\<close> for a collection that does not return.\<close>

definition forget_err :: "('e + 'a) \<times> 'b \<Rightarrow> ((unit + unit) \<times> 'b) option" where
  "forget_err out = (case out of (r, e) \<Rightarrow> Some (map_sum (\<lambda>_. ()) (\<lambda>_. ()) r, e))"

fun apply_action ::
  "'b backend \<Rightarrow> action \<Rightarrow> 'b mvcc_engine \<Rightarrow> ((unit + unit) \<times> 'b mvcc_engine) option" where
  "apply_action B (DirectBatch ts writes) e = forget_err (apply_direct_batch B e ts writes)"
| "apply_action B (GuardedBatch ts guards writes) e = forget_err (apply_guarded_batch B e ts guards writes)"
| "apply_action B (Prewrite txn ts key muta) e = forget_err (prewrite B e txn ts key muta)"
| "apply_action B (Commit txn key start_ts commit_ts) e = forget_err (commit B e txn key start_ts commit_ts)"
| "apply_action B (Abort txn key start_ts) e = forget_err (abort B e txn key start_ts)"
| "apply_action B (PrewriteBatch txn ts writes) e = forget_err (prewrite_batch B e txn ts writes)"
| "apply_action B (CommitBatch txn start_ts commit_ts keys) e =
     forget_err (commit_batch B e txn start_ts commit_ts keys)"
| "apply_action B (AbortBatch txn start_ts keys) e = forget_err (abort_batch B e txn start_ts keys)"
| "apply_action B (Gc ts) e = Option.bind (gc B e ts schedule_gc_options) forget_err"

fun apply_schedule :: "'b backend \<Rightarrow> 'b mvcc_engine \<Rightarrow> action list \<Rightarrow> 'b mvcc_engine option" where
  "apply_schedule B e [] = Some e"
| "apply_schedule B e (a # as) =
     Option.bind (apply_action B a e) (\<lambda>(_, e'). apply_schedule B e' as)"

text \<open>
  The snapshot the verifying interpreter takes, \<open>None\<close> where an \<open>unwrap\<close> panics. Sorting \<open>all_keys\<close>
  is the identity, since the contract returns the keys sorted; the \<open>sort\<close> is kept.
\<close>

fun snapshot_keys ::
  "'b backend \<Rightarrow> 'b mvcc_engine \<Rightarrow> key list \<Rightarrow> (committed_version list \<times> intent list) option" where
  "snapshot_keys B e [] = Some ([], [])"
| "snapshot_keys B e (k # ks) =
     (case (get_committed_versions B e k, get_intent B e k) of
        (Inr versions, Inr found) \<Rightarrow>
          map_option (\<lambda>(vs, is). (versions @ vs, (case found of Some i \<Rightarrow> i # is | None \<Rightarrow> is)))
            (snapshot_keys B e ks)
      | _ \<Rightarrow> None)"

definition snapshot ::
  "'b backend \<Rightarrow> 'b mvcc_engine \<Rightarrow> (key list \<times> committed_version list \<times> intent list) option" where
  "snapshot B e =
     (case all_keys B e of
        Inl _ \<Rightarrow> None
      | Inr ks \<Rightarrow> let all_ks = sort ks in map_option (\<lambda>(vs, is). (all_ks, vs, is)) (snapshot_keys B e all_ks))"

definition verified_action :: "'b backend \<Rightarrow> action \<Rightarrow> 'b mvcc_engine \<Rightarrow> 'b mvcc_engine option" where
  "verified_action B a e =
     Option.bind (snapshot B e) (\<lambda>snap_before.
     Option.bind (apply_action B a e) (\<lambda>(result, e').
     Option.bind (snapshot B e') (\<lambda>snap_after.
       if isl result \<and> snap_before \<noteq> snap_after then None
       else if (case a of Gc _ \<Rightarrow> True | _ \<Rightarrow> False) \<and> snd (snd snap_before) \<noteq> snd (snd snap_after) then None
       else Some e')))"

fun apply_and_verify_schedule :: "'b backend \<Rightarrow> 'b mvcc_engine \<Rightarrow> action list \<Rightarrow> 'b mvcc_engine option" where
  "apply_and_verify_schedule B e [] = Some e"
| "apply_and_verify_schedule B e (a # as) =
     Option.bind (verified_action B a e) (\<lambda>e'. apply_and_verify_schedule B e' as)"

section \<open>The transition system\<close>

inductive view_step :: "action \<Rightarrow> mvcc_view \<Rightarrow> mvcc_view \<Rightarrow> bool" where
  rejected: "view_step a v v"
| prewritten:
    "locks v k = None \<Longrightarrow> no_newer (vers v k) s \<Longrightarrow>
     view_step (Prewrite txn s k m) v
       (v_put_intent \<lparr>intent_key = k, intent_txn_id = txn, intent_start_ts = s,
          intent_mutation = m, intent_min_commit_ts = None\<rparr> v)"
| committed:
    "owns v k txn s \<Longrightarrow> s < c \<Longrightarrow> above_all (vers v k) c \<Longrightarrow>
     view_step (Commit txn k s c) v (commit_view v c {k})"
| aborted: "view_step (Abort txn k s) v (spec_abort v txn k s)"
| prewritten_batch:
    "prewrite_batch_fresh v s ws \<Longrightarrow> view_step (PrewriteBatch txn s ws) v (prewrite_view v txn s ws)"
| committed_batch:
    "commit_batch_ok v txn s c ks \<Longrightarrow> view_step (CommitBatch txn s c ks) v (commit_view v c (set ks))"
| aborted_batch: "view_step (AbortBatch txn s ks) v (abort_view v txn s (set ks))"
| written: "writes_ok v c ws \<Longrightarrow> view_step (DirectBatch c ws) v (write_view v c ws)"
| written_guarded:
    "writes_ok v c ws \<Longrightarrow> \<forall>g\<in>set gs. guard_holds v c g \<Longrightarrow>
     view_step (GuardedBatch c gs ws) v (write_view v c ws)"
| collected: "gc_reduces sp False v v' \<Longrightarrow> view_step (Gc sp) v v'"

inductive view_run :: "action list \<Rightarrow> mvcc_view \<Rightarrow> mvcc_view \<Rightarrow> bool" where
  run_nil: "view_run [] v v"
| run_cons: "view_step a v v' \<Longrightarrow> view_run as v' v'' \<Longrightarrow> view_run (a # as) v v''"

inductive_cases view_run_ConsE: "view_run (a # as) v v''"

section \<open>Simulation\<close>

lemma schedule_budget_ok: "budget_ok (budget schedule_gc_options)"
  by (simp add: budget_ok_def schedule_gc_options_def)

lemma isl_map_sum [simp]: "isl (map_sum f g r) = isl r"
  by (cases r) auto

lemma forget_err_Some:
  "forget_err out = Some (r, e) \<longleftrightarrow> (\<exists>r'. out = (r', e) \<and> r = map_sum (\<lambda>_. ()) (\<lambda>_. ()) r')"
  by (cases out) (auto simp: forget_err_def)

context backend_contract
begin

text \<open>Batches share one argument: rejected means unchanged, accepted means the specified view.\<close>

lemma batch_simulates:
  assumes "batch_refines valid view bk e out ok v' reason"
    and "forget_err out = Some (r, e')"
    and "ok \<Longrightarrow> view_step a (view e) v'"
  shows "valid e' \<and> view_step a (view e) (view e') \<and> (isl r \<longrightarrow> view e' = view e)"
  using assms
  by (cases out; cases "fst out")
    (auto simp: batch_refines_def forget_err_def intro: rejected)

lemma apply_action_returns:
  assumes "valid e"
  shows "\<exists>r e'. apply_action B a e = Some (r, e')"
proof (cases a)
  case (Gc sp)
  then show ?thesis
    using gc_law [OF assms schedule_budget_ok, of sp] by (auto simp: forget_err_def)
qed (simp_all add: forget_err_def split: prod.splits)

lemma apply_action_simulates:
  assumes "valid e" and "apply_action B a e = Some (r, e')"
  shows "valid e' \<and> view_step a (view e) (view e') \<and>
    (isl r \<and> (\<nexists>sp. a = Gc sp) \<longrightarrow> view e' = view e)"
proof (cases a)
  case (DirectBatch c ws)
  then show ?thesis
    using batch_simulates [OF apply_direct_batch_refines [OF assms(1), of c ws], of r e' a] assms(2) written by auto
next
  case (GuardedBatch c gs ws)
  then show ?thesis
    using batch_simulates [OF apply_guarded_batch_refines [OF assms(1), of c gs ws], of r e' a] assms(2)
      written_guarded by auto
next
  case (Prewrite txn s k m)
  then obtain r' where "prewrite B e txn s k m = (r', e')" "r = map_sum (\<lambda>_. ()) (\<lambda>_. ()) r'"
    using assms(2) by (auto simp: forget_err_Some)
  then show ?thesis
    using prewrite_refines [OF assms(1), of txn s k m] Prewrite
    by (auto simp: refines_def spec_prewrite_def intro: rejected prewritten split: option.splits if_splits)
next
  case (Commit txn k s c)
  then obtain r' where "commit B e txn k s c = (r', e')" "r = map_sum (\<lambda>_. ()) (\<lambda>_. ()) r'"
    using assms(2) by (auto simp: forget_err_Some)
  then show ?thesis
    using commit_refines [OF assms(1), of txn k s c] Commit
    by (auto simp: refines_def spec_commit_def owns_def intro!: rejected committed
        split: option.splits if_splits)
next
  case (Abort txn k s)
  then obtain r' where "abort B e txn k s = (r', e')" "r = map_sum (\<lambda>_. ()) (\<lambda>_. ()) r'"
    using assms(2) by (auto simp: forget_err_Some)
  then show ?thesis
    using abort_refines [OF assms(1), of txn k s] Abort
    by (auto simp: refines_def intro: rejected aborted)
next
  case (PrewriteBatch txn s ws)
  then show ?thesis
    using batch_simulates [OF prewrite_batch_refines [OF assms(1), of txn s ws], of r e' a] assms(2)
      prewritten_batch rejected by auto
next
  case (CommitBatch txn s c ks)
  then show ?thesis
    using batch_simulates [OF commit_batch_refines [OF assms(1), of txn s c ks], of r e' a] assms(2)
      committed_batch by auto
next
  case (AbortBatch txn s ks)
  then show ?thesis
    using batch_simulates [OF abort_batch_refines [OF assms(1), of txn s ks], of r e' a] assms(2)
      aborted_batch by auto
next
  case (Gc sp)
  then show ?thesis
    using gc_law [OF assms(1) schedule_budget_ok, of sp] assms(2)
    by (auto simp: forget_err_Some gc_safe_def schedule_gc_options_def intro: collected)
qed

lemma apply_schedule_simulates:
  assumes "valid e"
  shows "\<exists>e'. apply_schedule B e as = Some e' \<and> valid e' \<and> view_run as (view e) (view e')"
  using assms
proof (induction "as" arbitrary: e)
  case Nil
  then show ?case
    by (simp add: run_nil)
next
  case (Cons a as)
  obtain r e1 where a: "apply_action B a e = Some (r, e1)"
    using apply_action_returns [OF Cons.prems] by blast
  then have "valid e1" "view_step a (view e) (view e1)"
    using apply_action_simulates [OF Cons.prems] by auto
  then show ?case
    using Cons.IH [of e1] a by (auto intro: run_cons)
qed

end

section \<open>Invariants of the transition system\<close>

text \<open>
  Every intent sits under its own key, has no minimal commit timestamp of its own, and no version of
  its key is newer than its start timestamp: the snapshot it was prewritten against is still current.
\<close>

definition intents_ok :: "mvcc_view \<Rightarrow> bool" where
  "intents_ok v \<longleftrightarrow>
     (\<forall>k i. locks v k = Some i \<longrightarrow>
        intent_key i = k \<and> intent_min_commit_ts i = None \<and> no_newer (vers v k) (intent_start_ts i))"

lemma no_newer_map_le: "no_newer h s \<Longrightarrow> h' \<subseteq>\<^sub>m h \<Longrightarrow> no_newer h' s"
  unfolding no_newer_def using map_le_implies_dom_le [of h' h] by blast

lemma no_newer_above_all: "no_newer h s \<Longrightarrow> s < c \<Longrightarrow> above_all h c"
  unfolding no_newer_def above_all_def by (meson le_less_trans)

lemma above_all_notin: "above_all h c \<Longrightarrow> c \<notin> dom h"
  unfolding above_all_def by blast

lemma intents_ok_owns:
  assumes "intents_ok v" and "owns v k txn s" and "s < c"
  obtains i where "locks v k = Some i" "intent_txn_id i = txn" "intent_start_ts i = s"
    "intent_min_commit_ts i = None" "no_newer (vers v k) s" "above_all (vers v k) c"
  using assms no_newer_above_all by (auto simp: owns_def intents_ok_def)

lemma intents_ok_weaken:
  assumes "intents_ok v" and "\<And>k i. locks v' k = Some i \<Longrightarrow> locks v k = Some i \<and> vers v' k \<subseteq>\<^sub>m vers v k"
  shows "intents_ok v'"
  using assms unfolding intents_ok_def by (meson no_newer_map_le)

lemma intents_ok_prewrite_view:
  assumes "intents_ok v" and "prewrite_batch_fresh v s ws"
  shows "intents_ok (prewrite_view v txn s ws)"
  unfolding intents_ok_def
proof (intro allI impI)
  fix k i
  assume l: "locks (prewrite_view v txn s ws) k = Some i"
  show "intent_key i = k \<and> intent_min_commit_ts i = None \<and>
      no_newer (vers (prewrite_view v txn s ws) k) (intent_start_ts i)"
  proof (cases "map_of (map (\<lambda>w. (pw_key w, write_intent txn s w)) ws) k")
    case None
    with l assms(1) show ?thesis
      by (auto simp: prewrite_view_def intents_ok_def map_add_def)
  next
    case (Some j)
    then obtain w where "w \<in> set ws" "pw_key w = k" "j = write_intent txn s w"
      by (auto dest!: map_of_SomeD)
    with Some l assms(2) show ?thesis
      by (auto simp: prewrite_view_def write_intent_def prewrite_batch_fresh_def)
  qed
qed

lemma write_view_locks [simp]: "locks (write_view v c ws) = locks v"
  by (simp add: write_view_def)

lemma write_view_vers:
  assumes "writes_ok v c ws"
  shows "vers (write_view v c ws) k = vers v k \<or>
    locks v k = None \<and> above_all (vers v k) c \<and> (\<exists>x. vers (write_view v c ws) k = (vers v k)(c \<mapsto> x))"
proof (cases "map_of (map (\<lambda>w. (pw_key w, pw_value w)) ws) k")
  case (Some x)
  then obtain w where "w \<in> set ws" "pw_key w = k"
    by (auto dest!: map_of_SomeD)
  with Some assms show ?thesis
    by (auto simp: writes_ok_def write_view_def)
qed (simp add: write_view_def)

lemma write_view_locked:
  assumes "writes_ok v c ws" and "locks v k = Some i"
  shows "vers (write_view v c ws) k = vers v k"
  using write_view_vers [OF assms(1), of k] assms(2) by simp

lemma view_step_intents_ok:
  assumes "view_step a v v'" and "intents_ok v"
  shows "intents_ok v'"
  using assms
proof cases
  case (prewritten k s txn m)
  with assms(2) show ?thesis
    by (auto simp: intents_ok_def)
next
  case (committed k txn s c)
  then show ?thesis
    by (intro intents_ok_weaken [OF assms(2)]) (auto simp: commit_view_def split: if_splits)
next
  case (aborted txn k s)
  then show ?thesis
    by (intro intents_ok_weaken [OF assms(2)]) (auto simp: spec_abort_def split: if_splits)
next
  case (prewritten_batch s ws txn)
  with assms(2) show ?thesis
    by (simp add: intents_ok_prewrite_view)
next
  case (committed_batch txn s c ks)
  then show ?thesis
    by (intro intents_ok_weaken [OF assms(2)]) (auto simp: commit_view_def split: if_splits)
next
  case (aborted_batch txn s ks)
  then show ?thesis
    by (intro intents_ok_weaken [OF assms(2)]) (auto simp: abort_view_def split: if_splits)
next
  case (written c ws)
  then show ?thesis
    by (intro intents_ok_weaken [OF assms(2)]) (auto simp: write_view_locks write_view_locked)
next
  case (written_guarded c ws gs)
  then show ?thesis
    by (intro intents_ok_weaken [OF assms(2)]) (auto simp: write_view_locks write_view_locked)
next
  case (collected sp)
  then show ?thesis
    using gc_reduces_locks [OF collected(2)]
    by (intro intents_ok_weaken [OF assms(2)]) (simp add: gc_reduces_def)
qed simp

lemma view_run_intents_ok: "view_run as v v' \<Longrightarrow> intents_ok v \<Longrightarrow> intents_ok v'"
  by (induction rule: view_run.induct) (auto intro: view_step_intents_ok)

text \<open>
  Apart from collection, an action leaves a history alone or adds one version above all others,
  at the commit timestamp it names.
\<close>

fun action_commit_ts :: "action \<Rightarrow> timestamp option" where
  "action_commit_ts (DirectBatch c ws) = Some c"
| "action_commit_ts (GuardedBatch c gs ws) = Some c"
| "action_commit_ts (Commit txn k s c) = Some c"
| "action_commit_ts (CommitBatch txn s c ks) = Some c"
| "action_commit_ts _ = None"

lemma view_step_vers:
  assumes "view_step a v v'"
  shows "(\<exists>sp. a = Gc sp \<and> gc_reduces sp False v v') \<or> vers v' k = vers v k \<or>
    (\<exists>c x. action_commit_ts a = Some c \<and> above_all (vers v k) c \<and> vers v' k = (vers v k)(c \<mapsto> x))"
  using assms
proof cases
  case (written c ws)
  then show ?thesis
    using write_view_vers [of v c ws k] by auto
next
  case (written_guarded c ws gs)
  then show ?thesis
    using write_view_vers [of v c ws k] by auto
qed (auto simp: commit_view_def commit_batch_ok_def spec_abort_def prewrite_view_def abort_view_def)

text \<open>Committed versions are immutable: an action adds or removes them, it never rewrites one.\<close>

lemma view_step_immutable:
  assumes "view_step a v v'" and "vers v k t = Some x"
  shows "vers v' k t = Some x \<or> (\<exists>sp. a = Gc sp) \<and> vers v' k t = None"
  using view_step_vers [OF assms(1), of k]
proof (elim disjE exE conjE)
  fix sp
  assume gc: "a = Gc sp" "gc_reduces sp False v v'"
  then have "vers v' k \<subseteq>\<^sub>m vers v k"
    by (simp add: gc_reduces_def)
  with gc(1) assms(2) show ?thesis
    by (cases "vers v' k t") (auto simp: map_le_def dom_def)
qed (use assms(2) in \<open>auto simp: above_all_def\<close>)

text \<open>
  An action leaves snapshots at \<open>ts\<close> alone if it commits above \<open>ts\<close> and collects at or below it.
\<close>

definition keeps_snapshot :: "timestamp \<Rightarrow> action \<Rightarrow> bool" where
  "keeps_snapshot ts a \<longleftrightarrow>
     (\<forall>c. action_commit_ts a = Some c \<longrightarrow> ts < c) \<and> (\<forall>sp. a = Gc sp \<longrightarrow> sp \<le> ts)"

lemma view_step_visible:
  assumes "view_step a v v'" and "view_ok v" and "view_ok v'" and "keeps_snapshot ts a"
  shows "visible (vers v' k) ts = visible (vers v k) ts"
  using view_step_vers [OF assms(1), of k]
proof (elim disjE exE conjE)
  fix sp
  assume "a = Gc sp" "gc_reduces sp False v v'"
  with assms show ?thesis
    by (intro gc_reduces_visible) (auto simp: keeps_snapshot_def)
next
  fix c x
  assume "action_commit_ts a = Some c" "above_all (vers v k) c" "vers v' k = (vers v k)(c \<mapsto> x)"
  with assms(2,4) show ?thesis
    using visible_update [of "vers v k" c x ts] by (auto simp: above_all_def keeps_snapshot_def)
qed simp

section \<open>Schedules on a backend\<close>

context backend_contract
begin

lemma apply_schedule_intents_ok:
  assumes "valid e" and "intents_ok (view e)" and "apply_schedule B e as = Some e'"
  shows "valid e' \<and> intents_ok (view e')"
  using apply_schedule_simulates [OF assms(1), of "as"] assms(2,3) view_run_intents_ok by auto

lemma apply_schedule_visible:
  assumes "valid e" and "apply_schedule B e as = Some e'" and "\<forall>a\<in>set as. keeps_snapshot ts a"
  shows "valid e' \<and> visible (vers (view e') k) ts = visible (vers (view e) k) ts"
  using assms
proof (induction "as" arbitrary: e)
  case (Cons a as)
  then obtain r e1 where a: "apply_action B a e = Some (r, e1)" and rest: "apply_schedule B e1 as = Some e'"
    by (auto simp: Option.bind_eq_Some_conv)
  have e1: "valid e1" "view_step a (view e) (view e1)"
    using apply_action_simulates [OF Cons.prems(1) a] by auto
  have "visible (vers (view e1) k) ts = visible (vers (view e) k) ts"
    using view_step_visible [OF e1(2)] valid_view_ok Cons.prems(1,3) e1(1) by simp
  then show ?case
    using Cons.IH [OF e1(1) rest] Cons.prems(3) by simp
qed simp

end

context total_backend
begin

text \<open>An intent in place can be committed at any later timestamp, alone or with others.\<close>

lemma commit_succeeds:
  assumes "valid e" and "intents_ok (view e)" and "owns (view e) k txn s" and "s < c"
  shows "\<exists>e'. commit B e txn k s c = (Ok (), e') \<and> valid e' \<and> view e' = commit_view (view e) c {k}"
proof -
  obtain r e' where c: "commit B e txn k s c = (r, e')"
    by fastforce
  from assms(2-4) obtain i where "locks (view e) k = Some i" "intent_txn_id i = txn"
    "intent_start_ts i = s" "intent_min_commit_ts i = None" "above_all (vers (view e) k) c"
    by (rule intents_ok_owns)
  then have "spec_commit (view e) txn k s c = (Ok (), commit_view (view e) c {k})"
    using assms(4) above_all_notin [of "vers (view e) k" c] by (simp add: spec_commit_def not_le [symmetric])
  then show ?thesis
    using commit_exact [OF assms(1) c] c by simp
qed

lemma commit_batch_succeeds:
  assumes "valid e" and "intents_ok (view e)" and "\<forall>k\<in>set ks. owns (view e) k txn s" and "s < c"
    and "ks \<noteq> []" and "distinct ks"
  shows "\<exists>e'. commit_batch B e txn s c ks = (Ok (), e') \<and> valid e' \<and>
    view e' = commit_view (view e) c (set ks)"
proof -
  have "commit_batch_ok (view e) txn s c ks"
    unfolding commit_batch_ok_def
    using assms(3-6) intents_ok_owns [OF assms(2) _ assms(4)] by (metis option.distinct(1) option.sel)
  then show ?thesis
    using commit_batch_exact [OF assms(1), of txn s c ks] by (auto simp: batch_exact_def)
qed

lemma snapshot_keys_eq:
  assumes "valid e"
  shows "snapshot_keys B e ks =
    Some (concat (map (\<lambda>k. version_list k (vers (view e) k)) ks), List.map_filter (locks (view e)) ks)"
  by (induction ks)
    (simp_all add: get_committed_versions_eq [OF assms] get_intent_eq [OF assms] map_filter_simps
      split: option.splits)

lemma snapshot_eq:
  assumes "valid e"
  shows "snapshot B e =
    (let ks = sorted_list_of_set (view_keys (view e)) in
     Some (ks, concat (map (\<lambda>k. version_list k (vers (view e) k)) ks), List.map_filter (locks (view e)) ks))"
  by (simp add: snapshot_def all_keys_eq [OF assms] snapshot_keys_eq [OF assms] sorted_sort_id Let_def)

lemma snapshot_intents:
  assumes "view_ok v"
  shows "List.map_filter (locks v) (sorted_list_of_set (view_keys v)) =
    map (\<lambda>k. the (locks v k)) (sorted_list_of_set (dom (locks v)))"
proof -
  have "filter (\<lambda>k. locks v k \<noteq> None) (sorted_list_of_set (view_keys v)) = sorted_list_of_set (dom (locks v))"
    using assms
    by (intro strict_sorted_eq_sorted_list_of_set strict_sorted_filter) (auto simp: view_ok_def view_keys_def)
  then show ?thesis
    by (simp add: List.map_filter_def comp_def)
qed

lemma gc_action_ok:
  assumes "valid e" and "apply_action B (Gc sp) e = Some (r, e')"
  shows "\<not> isl r"
proof -
  obtain stats e'' where "gc B e sp schedule_gc_options = Some (Inr stats, e'')"
    using gc_exact [OF assms(1) schedule_budget_ok] by blast
  with assms(2) show ?thesis
    by (auto simp: forget_err_def)
qed

lemma apply_and_verify_schedule_passes:
  assumes "valid e"
  shows "\<exists>e'. apply_and_verify_schedule B e as = Some e' \<and> valid e' \<and> apply_schedule B e as = Some e'"
  using assms
proof (induction "as" arbitrary: e)
  case (Cons a as)
  obtain r e1 where a: "apply_action B a e = Some (r, e1)"
    using apply_action_returns [OF Cons.prems] by blast
  note sim = apply_action_simulates [OF Cons.prems a]
  then have e1: "valid e1"
    by blast
  have unchanged: "view e1 = view e" if "isl r"
    using that sim gc_action_ok [OF Cons.prems] a by auto
  have "locks (view e1) = locks (view e)" if "a = Gc sp" for sp
    using sim that by (auto elim: view_step.cases dest: gc_reduces_locks)
  then have gc: "snd (snd (the (snapshot B e1))) = snd (snd (the (snapshot B e)))" if "a = Gc sp" for sp
    using that snapshot_intents [OF valid_view_ok [OF e1]] snapshot_intents [OF valid_view_ok [OF Cons.prems]]
    by (simp add: snapshot_eq e1 Cons.prems Let_def)
  have "verified_action B a e = Some e1"
    using a gc unchanged
    by (auto simp: verified_action_def snapshot_eq e1 Cons.prems Let_def split: action.splits)
  then show ?case
    using Cons.IH [OF e1] a by auto
qed simp

end

end
