(* ===== verification/Schedule_Origins.thy ===== *)
theory Schedule_Origins
  imports Mvcc_Schedule
begin

text \<open>
  Where stored data come from. Every intent in place was placed by a prewrite of the schedule, and
  every version was written by a direct or guarded batch at its own timestamp or committed, at its own
  timestamp, from an intent an earlier prewrite placed. Shown for runs of the transition system by
  induction from the end, and hence for schedules on every backend that keeps the contract.
\<close>

section \<open>Origins\<close>

fun places_intent :: "action \<Rightarrow> intent \<Rightarrow> bool" where
  "places_intent (Prewrite txn s k m) i \<longleftrightarrow>
     i = \<lparr>intent_key = k, intent_txn_id = txn, intent_start_ts = s, intent_mutation = m,
          intent_min_commit_ts = None\<rparr>"
| "places_intent (PrewriteBatch txn s ws) i \<longleftrightarrow> i \<in> set (map (write_intent txn s) ws)"
| "places_intent _ i \<longleftrightarrow> False"

fun writes_version :: "action \<Rightarrow> key \<Rightarrow> timestamp \<Rightarrow> val option \<Rightarrow> bool" where
  "writes_version (DirectBatch c ws) k t x \<longleftrightarrow> t = c \<and> (k, x) \<in> set (map (\<lambda>w. (pw_key w, pw_value w)) ws)"
| "writes_version (GuardedBatch c gs ws) k t x \<longleftrightarrow> t = c \<and> (k, x) \<in> set (map (\<lambda>w. (pw_key w, pw_value w)) ws)"
| "writes_version _ k t x \<longleftrightarrow> False"

fun commits_intent :: "action \<Rightarrow> intent \<Rightarrow> timestamp \<Rightarrow> bool" where
  "commits_intent (Commit txn k s c) i t \<longleftrightarrow>
     t = c \<and> intent_key i = k \<and> intent_txn_id i = txn \<and> intent_start_ts i = s \<and> s < c"
| "commits_intent (CommitBatch txn s c ks) i t \<longleftrightarrow>
     t = c \<and> intent_key i \<in> set ks \<and> intent_txn_id i = txn \<and> intent_start_ts i = s \<and> s < c"
| "commits_intent _ i t \<longleftrightarrow> False"

definition intent_origin :: "action list \<Rightarrow> intent \<Rightarrow> bool" where
  "intent_origin as i \<longleftrightarrow> list_ex (\<lambda>a. places_intent a i) as"

definition version_origin :: "action list \<Rightarrow> key \<Rightarrow> timestamp \<Rightarrow> val option \<Rightarrow> bool" where
  "version_origin as k t x \<longleftrightarrow>
     (\<exists>pre a post. as = pre @ a # post \<and>
        (writes_version a k t x \<or>
         (\<exists>i. intent_origin pre i \<and> intent_key i = k \<and> mutation_value (intent_mutation i) = x \<and>
            commits_intent a i t)))"

definition view_origins :: "action list \<Rightarrow> mvcc_view \<Rightarrow> bool" where
  "view_origins as v \<longleftrightarrow>
     (\<forall>k i. locks v k = Some i \<longrightarrow> intent_key i = k \<and> intent_origin as i) \<and>
     (\<forall>k t x. vers v k t = Some x \<longrightarrow> version_origin as k t x)"

section \<open>Longer schedules\<close>

lemma intent_origin_snoc [simp]: "intent_origin (as @ [a]) i \<longleftrightarrow> intent_origin as i \<or> places_intent a i"
  by (simp add: intent_origin_def)

lemma version_origin_snoc: "version_origin as k t x \<Longrightarrow> version_origin (as @ [a]) k t x"
  unfolding version_origin_def by (metis append.assoc append_Cons)

lemma version_origin_written: "writes_version a k t x \<Longrightarrow> version_origin (as @ [a]) k t x"
  unfolding version_origin_def by blast

lemma version_origin_committed:
  "intent_origin as i \<Longrightarrow> commits_intent a i t \<Longrightarrow>
   version_origin (as @ [a]) (intent_key i) t (mutation_value (intent_mutation i))"
  unfolding version_origin_def by blast

lemma view_origins_locks: "view_origins as v \<Longrightarrow> locks v k = Some i \<Longrightarrow> intent_key i = k \<and> intent_origin as i"
  by (simp add: view_origins_def)

lemma view_origins_vers: "view_origins as v \<Longrightarrow> vers v k t = Some x \<Longrightarrow> version_origin as k t x"
  by (simp add: view_origins_def)

text \<open>A step that places no intent and adds no version keeps the origins.\<close>

lemma view_origins_shrink:
  assumes "view_origins as v"
    and "\<And>k i. locks v' k = Some i \<Longrightarrow> locks v k = Some i \<or> intent_key i = k \<and> places_intent a i"
    and "\<And>k t x. vers v' k t = Some x \<Longrightarrow> vers v k t = Some x \<or> version_origin (as @ [a]) k t x"
  shows "view_origins (as @ [a]) v'"
  unfolding view_origins_def
proof (intro conjI allI impI)
  fix k i
  assume "locks v' k = Some i"
  then show "intent_key i = k" "intent_origin (as @ [a]) i"
    using assms(2) view_origins_locks [OF assms(1)] by auto
next
  fix k t x
  assume "vers v' k t = Some x"
  then show "version_origin (as @ [a]) k t x"
    using assms(3) view_origins_vers [OF assms(1)] version_origin_snoc by blast
qed

section \<open>Steps and runs\<close>

lemma commit_view_origin:
  assumes "view_origins as v" and "\<And>k. k \<in> ks \<Longrightarrow> \<exists>i. locks v k = Some i \<and> commits_intent a i c"
  shows "view_origins (as @ [a]) (commit_view v c ks)"
proof (rule view_origins_shrink [OF assms(1)])
  fix k t x
  assume x: "vers (commit_view v c ks) k t = Some x"
  show "vers v k t = Some x \<or> version_origin (as @ [a]) k t x"
  proof (cases "k \<in> ks \<and> t = c")
    case True
    then obtain i where i: "locks v k = Some i" "commits_intent a i c"
      using assms(2) by blast
    then have "intent_key i = k" "intent_origin as i"
      using view_origins_locks [OF assms(1) i(1)] by simp_all
    with i x True version_origin_committed [of "as" i a c] show ?thesis
      by (simp add: commit_view_def)
  qed (use x in \<open>auto simp: commit_view_def split: if_splits\<close>)
qed (auto simp: commit_view_def split: if_splits)

lemma write_view_origin:
  assumes "view_origins as v"
    and "\<And>k x. (k, x) \<in> set (map (\<lambda>w. (pw_key w, pw_value w)) ws) \<Longrightarrow> writes_version a k c x"
  shows "view_origins (as @ [a]) (write_view v c ws)"
proof (rule view_origins_shrink [OF assms(1)])
  fix k t x
  assume "vers (write_view v c ws) k t = Some x"
  then show "vers v k t = Some x \<or> version_origin (as @ [a]) k t x"
    using assms(2) [OF map_of_SomeD, of k] version_origin_written
    by (auto simp: write_view_def split: option.splits if_splits)
qed simp

lemma view_step_origins:
  assumes "view_step a v v'" and "view_origins as v"
  shows "view_origins (as @ [a]) v'"
  using assms(1)
proof cases
  case rejected
  then show ?thesis
    by (auto intro: view_origins_shrink [OF assms(2)])
next
  case (prewritten k s txn m)
  then show ?thesis
    by (auto intro!: view_origins_shrink [OF assms(2)] simp: v_put_intent_def split: if_splits)
next
  case (committed k txn s c)
  then show ?thesis
    using view_origins_locks [OF assms(2), of k]
    by (auto intro!: commit_view_origin [OF assms(2)] simp: owns_def)
next
  case (aborted txn k s)
  then show ?thesis
    by (auto intro!: view_origins_shrink [OF assms(2)] simp: spec_abort_def split: if_splits)
next
  case (prewritten_batch s ws txn)
  then show ?thesis
    by (auto intro!: view_origins_shrink [OF assms(2)]
        simp: prewrite_view_def map_add_Some_iff write_intent_def dest!: map_of_SomeD)
next
  case (committed_batch txn s c ks)
  then show ?thesis
    using view_origins_locks [OF assms(2)]
    by (auto intro!: commit_view_origin [OF assms(2)] simp: owns_def commit_batch_ok_def)
next
  case (aborted_batch txn s ks)
  then show ?thesis
    by (auto intro!: view_origins_shrink [OF assms(2)] simp: abort_view_def split: if_splits)
next
  case (written c ws)
  then show ?thesis
    by (auto intro!: write_view_origin [OF assms(2)])
next
  case (written_guarded c ws gs)
  then show ?thesis
    by (auto intro!: write_view_origin [OF assms(2)])
next
  case (collected sp)
  have sub: "vers v' k \<subseteq>\<^sub>m vers v k" for k
    using collected(2) by (simp add: gc_reduces_def)
  show ?thesis
  proof (rule view_origins_shrink [OF assms(2)])
    show "vers v k t = Some x \<or> version_origin (as @ [a]) k t x" if "vers v' k t = Some x" for k t x
      using sub [of k] that by (auto simp: map_le_def dom_def)
  qed (simp add: gc_reduces_locks [OF collected(2)])
qed

lemma view_run_snoc: "view_run (as @ [a]) v v'' \<longleftrightarrow> (\<exists>v'. view_run as v v' \<and> view_step a v' v'')"
proof (induction "as" arbitrary: v)
  case Nil
  then show ?case
    by (auto intro: run_nil run_cons elim: view_run.cases)
next
  case (Cons b as)
  then show ?case
    by (auto elim!: view_run_ConsE) (blast intro: run_cons)+
qed

lemma view_run_origins:
  assumes "view_run as v v'" and "view_origins [] v"
  shows "view_origins as v'"
  using assms(1)
proof (induction "as" arbitrary: v' rule: rev_induct)
  case Nil
  then show ?case
    using assms(2) by (auto elim: view_run.cases)
next
  case (snoc a as)
  then show ?case
    by (auto simp: view_run_snoc intro: view_step_origins)
qed

section \<open>Schedules on a backend\<close>

context backend_contract
begin

lemma apply_schedule_origins:
  assumes "valid e" and "view_origins [] (view e)" and "apply_schedule B e as = Some e'"
  shows "view_origins as (view e')"
  using apply_schedule_simulates [OF assms(1), of "as"] assms(2,3) view_run_origins by auto

end

end
