(* ===== verification/Replanning.thy ===== *)
theory Replanning
  imports Gc_Laws
begin

text \<open>
  A client of the per-key planner, as its contract tests have it: a plan is carried out through the
  backend, by one collapse or by single removals, and planning is repeated until a plan is complete.
  Carrying a plan out is safe even if it fails half way, and repeated bounded planning drains a key.
\<close>

section \<open>Carrying out plans\<close>

fun remove_each ::
  "'b backend \<Rightarrow> 'b mvcc_engine \<Rightarrow> key \<Rightarrow> timestamp list \<Rightarrow> (string + unit) \<times> 'b mvcc_engine" where
  "remove_each B e key [] = (Ok (), e)"
| "remove_each B e key (timestamp # rest) =
     (case remove_committed_version B e key timestamp of
        (Inl msg, e') \<Rightarrow> (Err msg, e')
      | (Inr _, e') \<Rightarrow> remove_each B e' key rest)"

definition apply_plan ::
  "'b backend \<Rightarrow> 'b mvcc_engine \<Rightarrow> key_gc_plan \<Rightarrow> (string + unit) \<times> 'b mvcc_engine" where
  "apply_plan B e plan =
     (case plan_collapse plan of
        Some tombstone_timestamp \<Rightarrow>
          collapse_tombstone B e (plan_key plan) tombstone_timestamp (versions_to_remove plan)
      | None \<Rightarrow> remove_each B e (plan_key plan) (versions_to_remove plan))"

text \<open>Plan and carry out, once and until a plan is complete; \<open>None\<close> stands for a loop that never ends.\<close>

definition replan_round ::
  "'b backend \<Rightarrow> key \<Rightarrow> timestamp \<Rightarrow> key_gc_options \<Rightarrow> 'b mvcc_engine \<Rightarrow>
   (gc_error + key_gc_plan) \<times> 'b mvcc_engine" where
  "replan_round B k sp options e =
     (case plan_key_gc B e k sp options of
        Inl err \<Rightarrow> (Err err, e)
      | Inr plan \<Rightarrow>
          (case apply_plan B e plan of
             (Inl msg, e') \<Rightarrow> (Err (gc_error.Backend msg), e')
           | (Inr _, e') \<Rightarrow> (Ok plan, e')))"

partial_function (option) drain_key ::
  "'b backend \<Rightarrow> key \<Rightarrow> timestamp \<Rightarrow> key_gc_options \<Rightarrow> nat \<Rightarrow> 'b mvcc_engine \<Rightarrow>
   ((gc_error + nat) \<times> 'b mvcc_engine) option" where
  "drain_key B k sp options rounds e =
     (case replan_round B k sp options e of
        (Inl err, e') \<Rightarrow> Some (Err err, e')
      | (Inr plan, e') \<Rightarrow>
          if plan_complete plan then Some (Ok (rounds + 1), e')
          else drain_key B k sp options (rounds + 1) e')"

declare drain_key.simps [code]

section \<open>Safety\<close>

text \<open>The removal loop of the collector is this one with a counter.\<close>

lemma gc_remove_versions_remove_each:
  "gc_remove_versions B e k tss acc =
     (case remove_each B e k tss of
        (Inl msg, e') \<Rightarrow> (Err (gc_error.Backend msg), e')
      | (Inr _, e') \<Rightarrow> (Ok (acc\<lparr>acc_versions_removed := acc_versions_removed acc + length tss\<rparr>), e'))"
  by (induction tss arbitrary: e acc) (auto split: prod.splits sum.splits)

context backend_contract
begin

lemma remove_each_law:
  assumes "valid e" and "set tss \<subseteq> obsolete (vers (view e) k) sp" and "distinct tss"
    and "remove_each B e k tss = (r, e')"
  shows "gc_safe valid view sp c {k} e e' \<and> (\<not> isl r \<longrightarrow> view e' = v_remove_versions k (set tss) (view e))"
proof (cases r)
  case (Inl msg)
  then show ?thesis
    using gc_remove_versions_law [OF assms(1-3), of gc_acc_zero _ e' c] assms(4)
    by (simp add: gc_remove_versions_remove_each)
next
  case (Inr u)
  then show ?thesis
    using gc_remove_versions_law [OF assms(1-3), of gc_acc_zero _ e' c] assms(4)
    by (simp add: gc_remove_versions_remove_each)
qed

lemma apply_plan_law:
  assumes "valid e" and "plan_key_gc B e k sp options = Inr plan" and "apply_plan B e plan = (r, e')"
  shows "gc_safe valid view sp (plan_collapse_final_tombstones options) {k} e e' \<and>
    (\<not> isl r \<longrightarrow> view e' =
       v_remove_versions k (set_option (plan_collapse plan) \<union> set (versions_to_remove plan)) (view e))"
proof (cases "plan_collapse plan")
  case None
  then show ?thesis
    using remove_each_law [OF assms(1), of "versions_to_remove plan" k sp r e'] assms(3)
      plan_key_gc_law [OF assms(1,2)] by (simp add: apply_plan_def)
next
  case (Some t)
  let ?T = "insert t (set (versions_to_remove plan))"
  have "collapse_tombstone B e k t (versions_to_remove plan) = (r, e')"
    using assms(3) Some plan_key_gc_law [OF assms(1,2)] by (simp add: apply_plan_def)
  then have "valid e'" "view e' = (if isl r then view e else v_remove_versions k ?T (view e))"
    using collapse_tombstone_law [OF assms(1), of k t "versions_to_remove plan"] by (simp_all add: atomic_step_def)
  moreover have "gc_reduces sp (plan_collapse_final_tombstones options) (view e) (v_remove_versions k ?T (view e))"
    using plan_key_gc_apply [OF assms(1,2) refl] Some by simp
  ultimately show ?thesis
    using Some by (simp add: gc_safe_def vers_v_remove_versions)
qed

text \<open>A plan is complete exactly if fewer versions are obsolete than may be examined.\<close>

lemma plan_complete_iff:
  assumes "valid e" and "plan_key_gc B e k sp options = Inr plan"
  shows "plan_complete plan \<longleftrightarrow> card (obsolete (vers (view e) k) sp) < unat (max_versions_examined options)"
proof -
  from assms(2) obtain kp where kp: "get_visible_committed B e k sp = Inr kp"
    by (auto simp: plan_key_gc_def res_bind_eq_Ok split: if_splits)
  note kp' = get_visible_committed_law [OF assms(1) kp]
  show ?thesis
  proof (cases "visible (vers (view e) k) sp")
    case None
    with assms(2) kp kp' show ?thesis
      by (auto simp: plan_key_gc_def obsolete_no_keeper unat_gt_0 split: if_splits)
  next
    case (Some p)
    obtain kt x where p: "p = (kt, x)"
      by (cases p)
    have "finite (dom (vers (view e) k))"
      using valid_view_ok [OF assms(1)] by simp
    then have "card (obsolete (vers (view e) k) sp) = length (older_desc (vers (view e) k) kt)"
      by (simp add: obsolete_keeper [OF _ Some [unfolded p]] distinct_card distinct_older_desc)
    moreover obtain older where "get_committed_timestamps_before B e k kt (max_versions_examined options) = Inr older"
      and "plan_complete plan \<longleftrightarrow> length older < unat (max_versions_examined options)"
      using assms(2) kp kp' Some
      by (auto simp: plan_key_gc_def res_bind_eq_Ok Let_def as_version_def p split: if_splits)
    ultimately show ?thesis
      using get_committed_timestamps_before_law [OF assms(1), of k kt "max_versions_examined options" older]
      by (simp add: min_def)
  qed
qed

text \<open>Whatever the backend does, a round touches its key only and removes only what compaction removes.\<close>

lemma replan_round_safe:
  assumes "valid e" and "replan_round B k sp options e = (r, e')"
  shows "gc_safe valid view sp (plan_collapse_final_tombstones options) {k} e e'"
proof (cases "plan_key_gc B e k sp options")
  case (Inl err)
  with assms show ?thesis
    by (auto simp: replan_round_def gc_safe_refl)
next
  case (Inr plan)
  obtain r1 e1 where a: "apply_plan B e plan = (r1, e1)"
    by fastforce
  with assms(2) Inr have "e' = e1"
    by (auto simp: replan_round_def split: sum.splits)
  then show ?thesis
    using apply_plan_law [OF assms(1) Inr a] by simp
qed

end

section \<open>Draining a key\<close>

context total_backend
begin

lemma plan_key_gc_total:
  assumes "valid e" and "max_versions_examined options \<noteq> 0"
  obtains plan where "plan_key_gc B e k sp options = Inr plan"
proof -
  have "\<not> isl (plan_key_gc B e k sp options)"
    using assms
    by (auto simp: plan_key_gc_def plan_final_tombstone_def get_visible_committed_eq get_intent_eq
        get_latest_commit_ts_eq get_committed_timestamps_before_eq Let_def split: option.splits)
  then show ?thesis
    using that by (cases "plan_key_gc B e k sp options") auto
qed

lemma remove_each_total: "valid e \<Longrightarrow> \<not> isl (fst (remove_each B e k tss))"
  using gc_remove_versions_total [of e k tss gc_acc_zero]
  by (auto simp: gc_remove_versions_remove_each split: prod.splits sum.splits)

lemma replan_round_exact:
  assumes "valid e" and "max_versions_examined options \<noteq> 0"
  obtains plan e' where "plan_key_gc B e k sp options = Inr plan" "replan_round B k sp options e = (Inr plan, e')"
    "valid e'" "view e' =
      v_remove_versions k (set_option (plan_collapse plan) \<union> set (versions_to_remove plan)) (view e)"
proof -
  obtain plan where plan: "plan_key_gc B e k sp options = Inr plan"
    using plan_key_gc_total [OF assms] .
  obtain r e' where a: "apply_plan B e plan = (r, e')"
    by fastforce
  have "\<not> isl (fst (apply_plan B e plan))"
    using remove_each_total [OF assms(1)] collapse_tombstone_total [OF assms(1)]
    by (simp add: apply_plan_def split: option.splits)
  then have ok: "\<not> isl r"
    using a by simp
  then have "replan_round B k sp options e = (Inr plan, e')"
    using plan a by (auto simp: replan_round_def split: sum.splits)
  then show ?thesis
    using that plan ok apply_plan_law [OF assms(1) plan a] by (auto simp: gc_safe_def)
qed

lemma drain_key_exact:
  assumes "valid e" and "max_versions_examined options \<noteq> 0"
  shows "\<exists>e'. drain_key B k sp options n e = Some (Inr (n +
       card (obsolete (vers (view e) k) sp) div unat (max_versions_examined options) + 1), e') \<and>
    gc_safe valid view sp (plan_collapse_final_tombstones options) {k} e e' \<and>
    key_compact sp (plan_collapse_final_tombstones options) (view e') k"
  using assms(1)
proof (induction "card (obsolete (vers (view e) k) sp)" arbitrary: e n rule: less_induct)
  case less
  let ?c = "plan_collapse_final_tombstones options" and ?m = "unat (max_versions_examined options)"
  obtain plan e1 where plan: "plan_key_gc B e k sp options = Inr plan"
    and round: "replan_round B k sp options e = (Inr plan, e1)" and e1: "valid e1"
    and v1: "view e1 = v_remove_versions k (set_option (plan_collapse plan) \<union> set (versions_to_remove plan)) (view e)"
    using replan_round_exact [OF less.prems assms(2)] .
  note law = plan_key_gc_law [OF less.prems plan] and complete = plan_complete_iff [OF less.prems plan]
  note safe = replan_round_safe [OF less.prems round]
  have m: "0 < ?m"
    using assms(2) by (simp add: unat_gt_0)
  show ?case
  proof (cases "plan_complete plan")
    case True
    then have "drain_key B k sp options n e = Some (Inr (n + 1), e1)"
      by (simp add: drain_key.simps round)
    then show ?thesis
      using True complete safe plan_key_gc_apply [OF less.prems plan v1] by simp
  next
    case False
    let ?T = "set (versions_to_remove plan)" and ?O = "obsolete (vers (view e) k) sp"
    have fin: "finite (dom (vers (view e) k))"
      using valid_view_ok [OF less.prems] by simp
    have "?T \<subseteq> ?O" and card: "card ?T = ?m" and "plan_collapse plan = None"
      using law False by (auto simp: distinct_card)
    then have O1: "obsolete (vers (view e1) k) sp = ?O - ?T"
      by (simp add: v1 vers_v_remove_versions obsolete_restrict_obsolete [OF fin])
    have finO: "finite ?O"
      using fin by (rule finite_subset [rotated]) (auto simp: obsolete_def)
    then have c1: "card (obsolete (vers (view e1) k) sp) + ?m = card ?O"
      using \<open>?T \<subseteq> ?O\<close> card card_mono [OF finO \<open>?T \<subseteq> ?O\<close>] by (simp add: O1 card_Diff_subset)
    then obtain e' where e': "drain_key B k sp options (n + 1) e1 =
        Some (Inr (n + 1 + card (obsolete (vers (view e1) k) sp) div ?m + 1), e')"
      "gc_safe valid view sp ?c {k} e1 e'" "key_compact sp ?c (view e') k"
      using less.hyps [OF _ e1, of "n + 1"] m by auto
    have "card ?O div ?m = card (obsolete (vers (view e1) k) sp) div ?m + 1"
      unfolding c1 [symmetric] using m by (simp add: div_add_self2)
    moreover have "drain_key B k sp options n e = drain_key B k sp options (n + 1) e1"
      using False by (subst drain_key.simps) (simp add: round)
    ultimately show ?thesis
      using e' gc_safe_trans [OF safe e'(2)] by simp
  qed
qed

end

end
