(* ===== verification/Gc_Runs.thy ===== *)
theory Gc_Runs
  imports Gc_Laws
begin

text \<open>
  Sequences of incremental steps, and all budgets. A client of \<open>gc_incremental\<close> hands the cursor of one step to the next
  until a step reports that it is done, with a budget of its choice for each; such a run is shown to compact the
  store and to end. A step is also shown to be safe for every budget but the one with which it can go wrong, the
  largest version budget together with tombstone collapse.
\<close>

section \<open>Budgets at the limits\<close>

text \<open>The one case in which the wrap-around of a budget makes a step remove what it must keep.\<close>

definition wrapping_collapse :: "gc_options \<Rightarrow> bool" where
  "wrapping_collapse options \<longleftrightarrow> max_versions (budget options) = - 1 \<and> collapse_final_tombstones options"

lemma final_tombstone_disabled:
  "\<not> collapse_final_tombstones options \<Longrightarrow> final_tombstone B e k options keeper locked = Ok False"
  by (simp add: final_tombstone_def)

text \<open>What every step keeps, the loop of the full collection keeps.\<close>

lemma gc_loop_invariant:
  assumes "gc_loop B sp options cursor n e = Some out" and "I e"
    and step: "\<And>e cur r e'. I e \<Longrightarrow> gc_incremental B e sp cur options = (r, e') \<Longrightarrow> I e'"
  shows "I (snd out)"
proof -
  have "B = B \<longrightarrow> sp = sp \<longrightarrow> options = options \<longrightarrow> I e \<longrightarrow> I (snd out)"
    using assms(1)
  proof (rule gc_loop.raw_induct [where P = "\<lambda>B' sp' options' cursor' n' e' out'.
      B' = B \<longrightarrow> sp' = sp \<longrightarrow> options' = options \<longrightarrow> I e' \<longrightarrow> I (snd out')", rotated])
    fix loop B' sp' options' cursor' n' e' out'
    assume ih: "\<And>B' sp' options' cursor' n' e' out'. loop B' sp' options' cursor' n' e' = Some out' \<Longrightarrow>
        B' = B \<longrightarrow> sp' = sp \<longrightarrow> options' = options \<longrightarrow> I e' \<longrightarrow> I (snd out')"
      and body: "(case gc_incremental B' e' sp' cursor' options' of
          (Inl err, e'') \<Rightarrow> Some (Err err, e'')
        | (Inr res, e'') \<Rightarrow>
            if gc_done res then Some (Ok (n' + versions_removed res), e'')
            else loop B' sp' options' (Some (gc_cursor res)) (n' + versions_removed res) e'') = Some out'"
    show "B' = B \<longrightarrow> sp' = sp \<longrightarrow> options' = options \<longrightarrow> I e' \<longrightarrow> I (snd out')"
    proof (intro impI)
      assume same: "B' = B" "sp' = sp" "options' = options" and "I e'"
      obtain r e'' where g: "gc_incremental B e' sp cursor' options = (r, e'')"
        by fastforce
      then have "I e''"
        using step \<open>I e'\<close> by blast
      then show "I (snd out')"
        using body g same ih [of B sp options _ _ e'' out'] by (auto split: sum.splits if_splits)
    qed
  qed
  then show ?thesis
    using assms(2) by simp
qed

context backend_contract
begin

text \<open>With the largest version budget \<open>limit + 1\<close> is zero: no older version is found, and none is removed.\<close>

lemma gc_key_normal_wraps:
  assumes "valid e" and "gc_key_normal B e k keeper (- 1) acc = (r, e')"
  shows "e' = e \<and> (\<forall>acc' flow. r = Inr (acc', flow) \<longrightarrow> acc_versions_removed acc' = acc_versions_removed acc)"
  using assms(2) get_committed_timestamps_before_law [OF assms(1), of k "cv_commit_ts keeper" 0]
  by (cases "get_committed_timestamps_before B e k (cv_commit_ts keeper) 0")
    (auto simp: gc_key_normal_def Let_def)

lemma gc_key_wraps:
  assumes "valid e" and "max_versions (budget options) = - 1" and "\<not> collapse_final_tombstones options"
    and "acc_versions_removed acc = 0" and "gc_key B e sp options k acc = (r, e')"
  shows "e' = e \<and> (\<forall>acc' flow. r = Inr (acc', flow) \<longrightarrow> acc_versions_removed acc' = 0)"
  using assms(2-5)
  by (auto simp: gc_key_def gc_key_keeper_def Let_def final_tombstone_disabled
      dest!: gc_key_normal_wraps [OF assms(1)] split: sum.splits option.splits if_splits)

lemma gc_keys_wraps:
  assumes "valid e" and "max_versions (budget options) = - 1" and "\<not> collapse_final_tombstones options"
    and "acc_versions_removed acc = 0" and "gc_keys B e sp options ks acc = (r, e')"
  shows "e' = e \<and> (\<forall>acc' stopped. r = Inr (acc', stopped) \<longrightarrow> acc_versions_removed acc' = 0)"
  using assms(4,5)
proof (induction ks arbitrary: acc)
  case (Cons k ks)
  obtain r1 e1 where g: "gc_key B e sp options k acc = (r1, e1)"
    by fastforce
  note first = gc_key_wraps [OF assms(1-3) Cons.prems(1) g]
  show ?case
  proof (cases r1)
    case (Inl err)
    then show ?thesis
      using Cons.prems(2) g first by auto
  next
    case (Inr p)
    obtain acc1 flow where p: "p = (acc1, flow)"
      by (cases p)
    show ?thesis
      using Cons.prems(2) Cons.IH [of acc1] g first Inr p by (cases flow) auto
  qed
qed auto

text \<open>The budgets with which a step does nothing.\<close>

lemma gc_incremental_idle:
  assumes "valid e" and "\<not> budget_ok (budget options)" and "\<not> wrapping_collapse options"
    and "gc_incremental B e sp cursor options = (r, e')"
  shows "e' = e \<and> (\<forall>res. r = Inr res \<longrightarrow> versions_removed res = 0)"
proof (cases "keys_from B e (Option.bind cursor next_key) (max_keys (budget options) + 1)")
  case (Inl msg)
  then show ?thesis
    using assms(4) by (auto simp: gc_incremental_def split: if_splits)
next
  case (Inr keys)
  let ?page = "take (min (length keys) (unat (max_keys (budget options)))) keys"
  obtain r1 e1 where g: "gc_keys B e sp options ?page gc_acc_zero = (r1, e1)"
    by fastforce
  have "max_keys (budget options) = 0 \<or> max_versions (budget options) = 0 \<or>
      e1 = e \<and> (\<forall>acc' stopped. r1 = Inr (acc', stopped) \<longrightarrow> acc_versions_removed acc' = 0)"
  proof (cases "max_keys (budget options) = - 1")
    case True
    then have "keys = []"
      using keys_from_law [OF assms(1) Inr] by (simp add: v_keys_from_def)
    then show ?thesis
      using g by (auto simp: gc_acc_zero_def)
  next
    case False
    then show ?thesis
      using gc_keys_wraps [OF assms(1) _ _ _ g] assms(2,3) by (auto simp: wrapping_collapse_def budget_ok_def gc_acc_zero_def)
  qed
  then show ?thesis
    using assms(4) Inr g by (auto simp: gc_incremental_def Let_def split: sum.splits if_splits prod.splits)
qed

lemma gc_incremental_safe:
  assumes "valid e" and "\<not> wrapping_collapse options" and "gc_incremental B e sp cursor options = (r, e')"
  shows "gc_safe valid view sp (collapse_final_tombstones options) {k. from_key (Option.bind cursor next_key) k} e e'"
proof (cases "budget_ok (budget options)")
  case True
  then show ?thesis
    using gc_incremental_law [OF assms(1), of options sp cursor] assms(3) by (simp add: gc_step_post_def)
next
  case False
  then have "e' = e"
    using gc_incremental_idle [OF assms(1) False assms(2,3)] by blast
  then show ?thesis
    using assms(1) by (simp add: gc_safe_refl)
qed

lemma gc_loop_safe:
  assumes "gc_loop B sp options cursor n e = Some out" and "\<not> wrapping_collapse options" and "valid e"
  shows "gc_safe valid view sp (collapse_final_tombstones options) UNIV e (snd out)"
proof (rule gc_loop_invariant [OF assms(1)])
  show "gc_safe valid view sp (collapse_final_tombstones options) UNIV e e"
    using assms(3) by (rule gc_safe_refl)
  fix e1 cur r e2
  assume safe: "gc_safe valid view sp (collapse_final_tombstones options) UNIV e e1"
    and "gc_incremental B e1 sp cur options = (r, e2)"
  then show "gc_safe valid view sp (collapse_final_tombstones options) UNIV e e2"
    using gc_safe_trans [OF safe gc_incremental_safe [OF gc_safe_valid [OF safe] assms(2)]] by auto
qed

lemma gc_always_safe:
  assumes "gc B e sp options = Some (r, e')" and "\<not> wrapping_collapse options" and "valid e"
  shows "gc_safe valid view sp (collapse_final_tombstones options) UNIV e e'"
proof -
  obtain r1 where "gc_loop B sp options None 0 e = Some (r1, e')"
    using assms(1) by (auto simp: gc_def split: option.splits prod.splits sum.splits)
  then show ?thesis
    using gc_loop_safe [OF _ assms(2,3)] by fastforce
qed

end

section \<open>Runs of steps\<close>

text \<open>
  The loop of a client: a step for each budget, from the cursor the step before it returned, until one is done. The
  result counts the versions removed and tells whether the run is done.
\<close>

fun gc_run ::
  "'b backend \<Rightarrow> timestamp \<Rightarrow> bool \<Rightarrow> incremental_gc_cursor option \<Rightarrow> gc_budget list \<Rightarrow> nat \<Rightarrow> 'b mvcc_engine \<Rightarrow>
   (gc_error + nat \<times> bool) \<times> 'b mvcc_engine" where
  "gc_run B sp collapse cursor [] n e = (Ok (n, False), e)"
| "gc_run B sp collapse cursor (b # bs) n e =
     (case gc_incremental B e sp cursor \<lparr>budget = b, collapse_final_tombstones = collapse\<rparr> of
        (Inl err, e') \<Rightarrow> (Err err, e')
      | (Inr res, e') \<Rightarrow>
          if gc_done res then (Ok (n + versions_removed res, True), e')
          else gc_run B sp collapse (Some (gc_cursor res)) bs (n + versions_removed res) e')"

text \<open>No more steps than this are left, whatever their budgets.\<close>

definition steps_left :: "mvcc_view \<Rightarrow> key option \<Rightarrow> nat" where
  "steps_left v start = total_versions v + card {k \<in> view_keys v. from_key start k}"

lemma steps_left_decreases:
  assumes "gc_step_post valid view sp options start e (Inr res, e')" and "view_ok (view e)" and "\<not> gc_done res"
  shows "steps_left (view e') (next_key (gc_cursor res)) < steps_left (view e) start"
proof -
  obtain nk where nk: "next_key (gc_cursor res) = Some nk" "from_key start nk"
    and safe: "gc_safe valid view sp (collapse_final_tombstones options) {k. from_key start k} e e'"
    using assms(1,3) by (auto simp: gc_step_post_def split: option.splits)
  have "{k \<in> view_keys (view e'). from_key (Some nk) k} \<subseteq> {k \<in> view_keys (view e). from_key start k}"
    using gc_safe_view_keys [OF safe] nk(2) by (auto simp: from_key_def)
  then have "card {k \<in> view_keys (view e'). from_key (Some nk) k} \<le> card {k \<in> view_keys (view e). from_key start k}"
    using assms(2) by (intro card_mono) (auto simp: view_ok_def)
  then show ?thesis
    using gc_work_decreases [OF assms] by (auto simp: gc_work_def steps_left_def nk(1))
qed

context backend_contract
begin

lemma gc_run_law:
  assumes "valid e" and "\<And>b. b \<in> set bs \<Longrightarrow> budget_ok b"
    and "\<And>k. \<not> from_key (Option.bind cursor next_key) k \<Longrightarrow> key_compact sp c (view e) k"
    and "gc_run B sp c cursor bs n e = (r, e')"
  shows "gc_safe valid view sp c UNIV e e' \<and>
    (\<forall>m finished. r = Inr (m, finished) \<longrightarrow>
       total_versions (view e') + m = total_versions (view e) + n \<and>
       (if finished then \<forall>k. key_compact sp c (view e') k
        else length bs \<le> steps_left (view e) (Option.bind cursor next_key)))"
  using assms
proof (induction bs arbitrary: e cursor n)
  case Nil
  then show ?case
    by (auto simp: gc_safe_refl)
next
  case (Cons b bs)
  let ?start = "Option.bind cursor next_key" and ?o = "\<lparr>budget = b, collapse_final_tombstones = c\<rparr>"
  obtain r1 e1 where g: "gc_incremental B e sp cursor ?o = (r1, e1)"
    by fastforce
  have post: "gc_step_post valid view sp ?o ?start e (r1, e1)"
    using gc_incremental_law [OF Cons.prems(1), of ?o sp cursor] Cons.prems(2) g by simp
  then have safe: "gc_safe valid view sp c {k. from_key ?start k} e e1"
    by (simp add: gc_step_post_def)
  then have safe': "gc_safe valid view sp c UNIV e e1"
    by (rule gc_safe_mono) simp
  have old: "key_compact sp c (view e1) k" if "\<not> from_key ?start k" for k
    using that gc_safe_key_compact [OF safe, of k] Cons.prems(3) by simp
  show ?case
  proof (cases r1)
    case (Inl err)
    then show ?thesis
      using Cons.prems(4) g safe' by auto
  next
    case (Inr res)
    note post = post [unfolded Inr]
    have removed: "total_versions (view e1) + versions_removed res = total_versions (view e)"
      using post by (simp add: gc_step_post_def)
    show ?thesis
    proof (cases "gc_done res")
      case True
      then have "\<And>k. from_key ?start k \<Longrightarrow> key_compact sp c (view e1) k"
        using post by (auto simp: gc_step_post_def split: option.splits)
      then show ?thesis
        using Cons.prems(4) g safe' Inr True removed old by auto
    next
      case False
      let ?cur = "Some (gc_cursor res)"
      have "key_compact sp c (view e1) k" if "\<not> from_key (Option.bind ?cur next_key) k" for k
        using that False post old [of k]
        by (cases "from_key ?start k") (auto simp: gc_step_post_def from_key_def split: option.splits)
      moreover have rest: "gc_run B sp c ?cur bs (n + versions_removed res) e1 = (r, e')"
        using Cons.prems(4) g Inr False by simp
      ultimately have "gc_safe valid view sp c UNIV e1 e' \<and>
          (\<forall>m finished. r = Inr (m, finished) \<longrightarrow>
             total_versions (view e') + m = total_versions (view e1) + (n + versions_removed res) \<and>
             (if finished then \<forall>k. key_compact sp c (view e') k
              else length bs \<le> steps_left (view e1) (Option.bind ?cur next_key)))"
        using Cons.prems(2) by (intro Cons.IH gc_safe_valid [OF safe]) simp_all
      then show ?thesis
        using gc_safe_trans [OF safe', of UNIV e'] removed
          steps_left_decreases [OF post valid_view_ok [OF Cons.prems(1)] False]
        by (auto split: if_splits)
    qed
  qed
qed

end

context history_store
begin

lemma gc_run_total:
  assumes "valid e" and "\<And>b. b \<in> set bs \<Longrightarrow> budget_ok b"
  shows "\<not> isl (fst (gc_run B sp c cursor bs n e))"
  using assms
proof (induction bs arbitrary: e cursor n)
  case (Cons b bs)
  let ?o = "\<lparr>budget = b, collapse_final_tombstones = c\<rparr>"
  have ok: "budget_ok (budget ?o)"
    using Cons.prems(2) by simp
  obtain res e1 where g: "gc_incremental B e sp cursor ?o = (Inr res, e1)"
    using gc_incremental_total [OF Cons.prems(1) ok] .
  have "valid e1"
    using gc_incremental_law [OF Cons.prems(1) ok, of sp cursor] g by (simp add: gc_step_post_def gc_safe_def)
  then show ?case
    using Cons g by simp
qed simp

text \<open>A run from the beginning: what it removes, that it compacts when it is done, and when it is.\<close>

lemma gc_run_exact:
  assumes "valid e" and "\<And>b. b \<in> set bs \<Longrightarrow> budget_ok b"
  obtains m finished e' where "gc_run B sp c None bs 0 e = (Inr (m, finished), e')"
    and "gc_safe valid view sp c UNIV e e'" and "total_versions (view e') + m = total_versions (view e)"
    and "finished \<Longrightarrow> view e' = compact_view sp c (view e)"
    and "total_versions (view e) + card (view_keys (view e)) < length bs \<Longrightarrow> finished"
proof -
  obtain r e' where run: "gc_run B sp c None bs 0 e = (r, e')"
    by fastforce
  then obtain m finished where r: "r = Inr (m, finished)"
    using gc_run_total [where bs = bs and sp = sp and c = c and cursor = None and n = 0, OF assms] by (cases r) auto
  have law: "gc_safe valid view sp c UNIV e e'" "total_versions (view e') + m = total_versions (view e)"
    "if finished then \<forall>k. key_compact sp c (view e') k
     else length bs \<le> total_versions (view e) + card (view_keys (view e))"
    using gc_run_law [OF assms _ run] by (auto simp: r from_key_def steps_left_def)
  then have "view e' = compact_view sp c (view e)" if finished
    using that by (intro gc_reduces_compact) (auto simp: gc_safe_def)
  then show thesis
    using that [OF run [unfolded r] law(1,2)] law(3) by (auto split: if_splits)
qed

end

end
