(* ===== verification/Ordered_Collections.thy ===== *)
theory Ordered_Collections
  imports Mvcc_Prelude
begin

text \<open>
  The standard library's \<open>BTreeMap\<close> and \<open>BTreeSet\<close> as the crate uses them: an association list
  (a list) kept strictly sorted by key, with insertion, removal, lookup, membership and the
  range iterators. \<open>btree_inv\<close> is the representation invariant; under it every operation is
  characterised by its effect on \<open>map_of\<close> (or on the set of elements).
\<close>

type_synonym ('k, 'v) btree_map = "('k \<times> 'v) list"

section \<open>Maps\<close>

fun btree_insert :: "'k::linorder \<Rightarrow> 'v \<Rightarrow> ('k, 'v) btree_map \<Rightarrow> ('k, 'v) btree_map" where
  "btree_insert k v [] = [(k, v)]"
| "btree_insert k v ((k', v') # m) =
     (if k < k' then (k, v) # (k', v') # m
      else if k = k' then (k, v) # m
      else (k', v') # btree_insert k v m)"

fun btree_remove :: "'k::linorder \<Rightarrow> ('k, 'v) btree_map \<Rightarrow> ('k, 'v) btree_map" where
  "btree_remove k [] = []"
| "btree_remove k ((k', v') # m) = (if k = k' then m else (k', v') # btree_remove k m)"

text \<open>\<open>range(lo..)\<close>, \<open>range(lo..=hi)\<close> and \<open>range(lo..hi)\<close>, as the list they iterate over.\<close>

definition btree_range_from :: "'k::linorder \<Rightarrow> ('k, 'v) btree_map \<Rightarrow> ('k \<times> 'v) list" where
  "btree_range_from lo m = dropWhile (\<lambda>e. fst e < lo) m"

definition btree_range_incl :: "'k::linorder \<Rightarrow> 'k \<Rightarrow> ('k, 'v) btree_map \<Rightarrow> ('k \<times> 'v) list" where
  "btree_range_incl lo hi m = takeWhile (\<lambda>e. fst e \<le> hi) (btree_range_from lo m)"

definition btree_range_excl :: "'k::linorder \<Rightarrow> 'k \<Rightarrow> ('k, 'v) btree_map \<Rightarrow> ('k \<times> 'v) list" where
  "btree_range_excl lo hi m = takeWhile (\<lambda>e. fst e < hi) (btree_range_from lo m)"

text \<open>\<open>next_back\<close> and \<open>next\<close> of a range iterator.\<close>

definition iter_next_back :: "'a list \<Rightarrow> 'a option" where
  "iter_next_back xs = (if xs = [] then None else Some (last xs))"

definition iter_next :: "'a list \<Rightarrow> 'a option" where
  "iter_next xs = (case xs of [] \<Rightarrow> None | x # _ \<Rightarrow> Some x)"

definition btree_inv :: "('k::linorder, 'v) btree_map \<Rightarrow> bool" where
  "btree_inv m \<longleftrightarrow> strict_sorted_list (map fst m)"

section \<open>Sets\<close>

fun bset_insert :: "'k::linorder \<Rightarrow> 'k list \<Rightarrow> 'k list" where
  "bset_insert k [] = [k]"
| "bset_insert k (x # xs) =
     (if k < x then k # x # xs else if k = x then x # xs else x # bset_insert k xs)"

definition bset_remove :: "'k::linorder \<Rightarrow> 'k list \<Rightarrow> 'k list" where
  "bset_remove k xs = remove1 k xs"

definition bset_range_from :: "'k::linorder \<Rightarrow> 'k list \<Rightarrow> 'k list" where
  "bset_range_from lo xs = dropWhile (\<lambda>x. x < lo) xs"

section \<open>Laws of the map\<close>

lemma set_btree_insert: "fst ` set (btree_insert k v m) = insert k (fst ` set m)"
  by (induction k v m rule: btree_insert.induct) auto

lemma btree_insert_inv: "btree_inv m \<Longrightarrow> btree_inv (btree_insert k v m)"
proof (induction k v m rule: btree_insert.induct)
  case (2 k v k' v' m)
  then show ?case
    using set_btree_insert [of k v m] by (auto simp: btree_inv_def)
qed (simp add: btree_inv_def)

lemma map_of_btree_insert: "map_of (btree_insert k v m) = (map_of m)(k \<mapsto> v)"
  by (induction k v m rule: btree_insert.induct) auto

lemma set_btree_remove: "set (btree_remove k m) \<subseteq> set m"
  by (induction k m rule: btree_remove.induct) auto

lemma btree_remove_inv: "btree_inv m \<Longrightarrow> btree_inv (btree_remove k m)"
proof (induction k m rule: btree_remove.induct)
  case (2 k k' v' m)
  then show ?case
    using set_btree_remove [of k m] by (auto simp: btree_inv_def)
qed (simp add: btree_inv_def)

lemma map_of_btree_remove:
  assumes "btree_inv m"
  shows "map_of (btree_remove k m) = (map_of m)(k := None)"
  using assms
proof (induction k m rule: btree_remove.induct)
  case (2 k k' v' m)
  then have "k' \<notin> fst ` set m"
    by (auto simp: btree_inv_def)
  then have "map_of m k' = None"
    by (simp add: map_of_eq_None_iff)
  with 2 show ?case
    by (auto simp: btree_inv_def fun_eq_iff)
qed simp

lemma btree_inv_entries: "btree_inv m \<Longrightarrow> sorted_wrt (\<lambda>x y. fst x < fst y) m"
  by (simp add: btree_inv_def sorted_wrt_map)

lemma btree_inv_distinct: "btree_inv m \<Longrightarrow> distinct (map fst m)"
  by (simp add: btree_inv_def strict_sorted_distinct)

lemma btree_range_from_eq:
  "btree_inv m \<Longrightarrow> btree_range_from lo m = filter (\<lambda>e. lo \<le> fst e) m"
  by (simp add: btree_range_from_def dropWhile_less_eq_filter btree_inv_entries)

lemma takeWhile_fst_eq_filter:
  fixes m :: "('k::linorder, 'v) btree_map"
  assumes "btree_inv m" and "\<And>a b. a < b \<Longrightarrow> Q b \<Longrightarrow> Q a"
  shows "takeWhile (\<lambda>e. Q (fst e)) (filter P m) = filter (\<lambda>e. Q (fst e)) (filter P m)"
  using sorted_wrt_filter' [OF btree_inv_entries [OF assms(1)], of P]
  by (intro takeWhile_downclosed_eq_filter) (rule sorted_wrt_mono_rel, use assms(2) in auto)

lemma btree_range_incl_eq:
  "btree_inv m \<Longrightarrow> btree_range_incl lo hi m = filter (\<lambda>e. lo \<le> fst e \<and> fst e \<le> hi) m"
  using takeWhile_fst_eq_filter [of m "\<lambda>a. a \<le> hi" "\<lambda>e. lo \<le> fst e"]
  by (simp add: btree_range_incl_def btree_range_from_eq conj_commute)

lemma btree_range_excl_eq:
  "btree_inv m \<Longrightarrow> btree_range_excl lo hi m = filter (\<lambda>e. lo \<le> fst e \<and> fst e < hi) m"
  using takeWhile_fst_eq_filter [of m "\<lambda>a. a < hi" "\<lambda>e. lo \<le> fst e"]
  by (simp add: btree_range_excl_def btree_range_from_eq conj_commute)

section \<open>Laws of the set\<close>

lemma set_bset_insert [simp]: "set (bset_insert k xs) = insert k (set xs)"
  by (induction k xs rule: bset_insert.induct) auto

lemma bset_insert_sorted: "strict_sorted_list xs \<Longrightarrow> strict_sorted_list (bset_insert k xs)"
  by (induction k xs rule: bset_insert.induct) auto

lemma bset_remove_sorted: "strict_sorted_list xs \<Longrightarrow> strict_sorted_list (bset_remove k xs)"
  by (simp add: bset_remove_def strict_sorted_iff sorted_remove1)

lemma set_bset_remove: "strict_sorted_list xs \<Longrightarrow> set (bset_remove k xs) = set xs - {k}"
  by (simp add: bset_remove_def strict_sorted_distinct)

lemma bset_range_from_eq:
  "strict_sorted_list xs \<Longrightarrow> bset_range_from lo xs = filter (\<lambda>x. lo \<le> x) xs"
  using dropWhile_less_eq_filter [of "\<lambda>x. x" xs lo] by (simp add: bset_range_from_def)

end
