(* ===== verification/In_Memory_Backend.thy ===== *)
theory In_Memory_Backend
  imports Schedule_Origins Replanning Gc_Runs Ordered_Collections
begin

text \<open>
  \<open>InMemoryBackend\<close> of \<open>backend.rs\<close>: a \<open>BTreeMap\<close> of versions keyed by (key, timestamp), a
  \<open>HashMap\<close> of intents (only looked up, inserted into and removed from, so a map), and the
  \<open>BTreeSet\<close> of live keys. Its methods in source order, its representation invariant, and the
  proof that it implements the backend contract without ever failing.
\<close>

section \<open>State\<close>

record in_memory =
  committed :: "(key \<times> timestamp, val option) btree_map"
  intents :: "key \<rightharpoonup> intent"
  all_keys_set :: "key list"

definition in_memory_new :: in_memory where
  "in_memory_new = \<lparr>committed = [], intents = Map.empty, all_keys_set = []\<rparr>"

definition timestamp_max :: timestamp where
  "timestamp_max = Timestamp (- 1)"

section \<open>Reads\<close>

fun imb_collect_versions ::
  "key \<Rightarrow> ((key \<times> timestamp) \<times> val option) list \<Rightarrow> committed_version list" where
  "imb_collect_versions key [] = []"
| "imb_collect_versions key (((k, ts), value) # es) =
     (if k \<noteq> key then []
      else \<lparr>cv_key = k, cv_commit_ts = ts, cv_value = value\<rparr> # imb_collect_versions key es)"

definition imb_get_committed_versions :: "in_memory \<Rightarrow> key \<Rightarrow> string + committed_version list" where
  "imb_get_committed_versions b key =
     Ok (imb_collect_versions key (btree_range_from (key, Timestamp 0) (committed b)))"

definition imb_get_latest_committed :: "in_memory \<Rightarrow> key \<Rightarrow> string + committed_version option" where
  "imb_get_latest_committed b key =
     (case iter_next_back
        (btree_range_incl (key, Timestamp 0) (key, timestamp_max) (committed b)) of
        Some ((k, ts), value) \<Rightarrow>
          if k = key then Ok (Some \<lparr>cv_key = k, cv_commit_ts = ts, cv_value = value\<rparr>) else Ok None
      | None \<Rightarrow> Ok None)"

definition imb_get_visible_committed ::
  "in_memory \<Rightarrow> key \<Rightarrow> timestamp \<Rightarrow> string + committed_version option" where
  "imb_get_visible_committed b key read_ts =
     (case iter_next_back (btree_range_incl (key, Timestamp 0) (key, read_ts) (committed b)) of
        Some ((k, ts), value) \<Rightarrow>
          if k = key then Ok (Some \<lparr>cv_key = k, cv_commit_ts = ts, cv_value = value\<rparr>) else Ok None
      | None \<Rightarrow> Ok None)"

definition imb_get_latest_commit_ts :: "in_memory \<Rightarrow> key \<Rightarrow> string + timestamp option" where
  "imb_get_latest_commit_ts b key =
     (case iter_next_back
        (btree_range_incl (key, Timestamp 0) (key, timestamp_max) (committed b)) of
        Some ((k, ts), _) \<Rightarrow> if k = key then Ok (Some ts) else Ok None
      | None \<Rightarrow> Ok None)"

definition imb_get_intent :: "in_memory \<Rightarrow> key \<Rightarrow> string + intent option" where
  "imb_get_intent b key = Ok (intents b key)"

section \<open>Writes\<close>

definition maybe_remove_from_keys :: "in_memory \<Rightarrow> key \<Rightarrow> in_memory" where
  "maybe_remove_from_keys b key =
     (if intents b key = None then
        (if iter_next (btree_range_incl (key, Timestamp 0) (key, timestamp_max) (committed b)) = None
         then b\<lparr>all_keys_set := bset_remove key (all_keys_set b)\<rparr> else b)
      else b)"

definition imb_insert_intent :: "intent \<Rightarrow> in_memory \<Rightarrow> in_memory" where
  "imb_insert_intent intent b =
     b\<lparr>all_keys_set := bset_insert (intent_key intent) (all_keys_set b),
       intents := (intents b)(intent_key intent \<mapsto> intent)\<rparr>"

definition imb_put_intent :: "in_memory \<Rightarrow> intent \<Rightarrow> (string + unit) \<times> in_memory" where
  "imb_put_intent b intent = (Ok (), imb_insert_intent intent b)"

definition imb_intent_matches :: "in_memory \<Rightarrow> key \<Rightarrow> txn_id \<Rightarrow> timestamp \<Rightarrow> bool" where
  "imb_intent_matches b key txn_id start_ts =
     (case intents b key of
        Some intent \<Rightarrow> intent_txn_id intent = txn_id \<and> intent_start_ts intent = start_ts
      | None \<Rightarrow> False)"

definition imb_drop_intent :: "key \<Rightarrow> in_memory \<Rightarrow> in_memory" where
  "imb_drop_intent key b = maybe_remove_from_keys (b\<lparr>intents := (intents b)(key := None)\<rparr>) key"

definition imb_remove_intent ::
  "in_memory \<Rightarrow> key \<Rightarrow> txn_id \<Rightarrow> timestamp \<Rightarrow> (string + bool) \<times> in_memory" where
  "imb_remove_intent b key txn_id start_ts =
     (if imb_intent_matches b key txn_id start_ts then (Ok True, imb_drop_intent key b)
      else (Ok False, b))"

definition imb_insert_version :: "committed_version \<Rightarrow> in_memory \<Rightarrow> in_memory" where
  "imb_insert_version version b =
     b\<lparr>all_keys_set := bset_insert (cv_key version) (all_keys_set b),
       committed := btree_insert (cv_key version, cv_commit_ts version) (cv_value version)
         (committed b)\<rparr>"

definition imb_put_committed :: "in_memory \<Rightarrow> committed_version \<Rightarrow> (string + unit) \<times> in_memory" where
  "imb_put_committed b version = (Ok (), imb_insert_version version b)"

definition imb_put_committed_batch ::
  "in_memory \<Rightarrow> committed_version list \<Rightarrow> (string + unit) \<times> in_memory" where
  "imb_put_committed_batch b versions = (Ok (), fold imb_insert_version versions b)"

definition imb_remove_committed_version ::
  "in_memory \<Rightarrow> key \<Rightarrow> timestamp \<Rightarrow> (string + unit) \<times> in_memory" where
  "imb_remove_committed_version b key commit_ts =
     (Ok (), maybe_remove_from_keys
        (b\<lparr>committed := btree_remove (key, commit_ts) (committed b)\<rparr>) key)"

definition imb_all_keys :: "in_memory \<Rightarrow> string + key list" where
  "imb_all_keys b = Ok (all_keys_set b)"

definition imb_put_intents_batch :: "in_memory \<Rightarrow> intent list \<Rightarrow> (string + unit) \<times> in_memory" where
  "imb_put_intents_batch b new_intents = (Ok (), fold imb_insert_intent new_intents b)"

definition imb_remove_matching :: "key \<times> txn_id \<times> timestamp \<Rightarrow> in_memory \<Rightarrow> in_memory" where
  "imb_remove_matching r b =
     (case r of (key, txn_id, start_ts) \<Rightarrow>
        if imb_intent_matches b key txn_id start_ts then imb_drop_intent key b else b)"

definition imb_commit_intents_batch ::
  "in_memory \<Rightarrow> committed_version list \<Rightarrow> (key \<times> txn_id \<times> timestamp) list \<Rightarrow>
   (string + unit) \<times> in_memory" where
  "imb_commit_intents_batch b commits removed_intents =
     (Ok (), fold imb_remove_matching removed_intents (fold imb_insert_version commits b))"

definition imb_remove_intents_batch ::
  "in_memory \<Rightarrow> (key \<times> txn_id \<times> timestamp) list \<Rightarrow> (string + unit) \<times> in_memory" where
  "imb_remove_intents_batch b removed = (Ok (), fold imb_remove_matching removed b)"

section \<open>Key scans and garbage collection support\<close>

definition imb_keys_from :: "in_memory \<Rightarrow> key option \<Rightarrow> usize \<Rightarrow> string + key list" where
  "imb_keys_from b start limit =
     (case start of
        Some s \<Rightarrow> Ok (take (unat limit) (bset_range_from s (all_keys_set b)))
      | None \<Rightarrow> Ok (take (unat limit) (all_keys_set b)))"

fun imb_prefix_loop ::
  "key \<Rightarrow> usize \<Rightarrow> ((key \<times> timestamp) \<times> val option) list \<Rightarrow> key list \<Rightarrow> key list" where
  "imb_prefix_loop p limit [] result = result"
| "imb_prefix_loop p limit (((k, ts), value) # es) result =
     (if \<not> prefix p k then result
      else if iter_next_back result \<noteq> Some k then
        (if length (result @ [k]) = unat limit then result @ [k]
         else imb_prefix_loop p limit es (result @ [k]))
      else imb_prefix_loop p limit es result)"

definition imb_keys_from_prefix ::
  "in_memory \<Rightarrow> key \<Rightarrow> key option \<Rightarrow> usize \<Rightarrow> string + key list" where
  "imb_keys_from_prefix b p start limit =
     (if limit = 0 then Ok []
      else if p = [] then Err ''Prefix cannot be empty''
      else if (case start of Some s \<Rightarrow> \<not> prefix p s | None \<Rightarrow> False)
        then Err ''Start cursor must start with the prefix''
      else
        (let scan_start = (case start of Some s \<Rightarrow> s | None \<Rightarrow> p)
         in Ok (imb_prefix_loop p limit
              (btree_range_from (scan_start, Timestamp 0) (committed b)) [])))"

definition imb_get_committed_timestamps_before ::
  "in_memory \<Rightarrow> key \<Rightarrow> timestamp \<Rightarrow> usize \<Rightarrow> string + timestamp list" where
  "imb_get_committed_timestamps_before b key before_ts limit =
     Ok (map (\<lambda>e. snd (fst e)) (filter (\<lambda>e. fst (fst e) = key)
       (take (unat limit)
         (rev (btree_range_excl (key, Timestamp 0) (key, before_ts) (committed b))))))"

definition imb_collapse_tombstone ::
  "in_memory \<Rightarrow> key \<Rightarrow> timestamp \<Rightarrow> timestamp list \<Rightarrow> (string + unit) \<times> in_memory" where
  "imb_collapse_tombstone b key tombstone_ts older_ts =
     (let c = fold (\<lambda>ts. btree_remove (key, ts)) older_ts
                (btree_remove (key, tombstone_ts) (committed b))
      in (Ok (), maybe_remove_from_keys (b\<lparr>committed := c\<rparr>) key))"

definition in_memory_ops :: "in_memory backend" where
  "in_memory_ops =
     \<lparr>get_committed_versions = imb_get_committed_versions,
      get_latest_committed = imb_get_latest_committed,
      get_visible_committed = imb_get_visible_committed,
      get_latest_commit_ts = imb_get_latest_commit_ts,
      get_intent = imb_get_intent,
      put_intent = imb_put_intent,
      remove_intent = imb_remove_intent,
      put_committed = imb_put_committed,
      put_committed_batch = imb_put_committed_batch,
      remove_committed_version = imb_remove_committed_version,
      all_keys = imb_all_keys,
      put_intents_batch = imb_put_intents_batch,
      commit_intents_batch = imb_commit_intents_batch,
      remove_intents_batch = imb_remove_intents_batch,
      keys_from = imb_keys_from,
      keys_from_prefix = imb_keys_from_prefix,
      get_committed_timestamps_before = imb_get_committed_timestamps_before,
      collapse_tombstone = imb_collapse_tombstone\<rparr>"

section \<open>Representation invariant and abstraction\<close>

definition imb_live :: "in_memory \<Rightarrow> key set" where
  "imb_live b = (\<lambda>e. fst (fst e)) ` set (committed b) \<union> dom (intents b)"

definition imb_valid :: "in_memory \<Rightarrow> bool" where
  "imb_valid b \<longleftrightarrow>
     btree_inv (committed b) \<and> strict_sorted_list (all_keys_set b) \<and>
     set (all_keys_set b) = (\<lambda>e. fst (fst e)) ` set (committed b) \<union> dom (intents b)"

definition imb_view :: "in_memory \<Rightarrow> mvcc_view" where
  "imb_view b = \<lparr>vers = (\<lambda>k t. map_of (committed b) (k, t)), locks = intents b\<rparr>"


section \<open>Reading the versions of one key\<close>

lemma imb_view_simps [simp]:
  "vers (imb_view b) k t = map_of (committed b) (k, t)"
  "locks (imb_view b) = intents b"
  by (simp_all add: imb_view_def)

lemma imb_vers_dom: "t \<in> dom (vers (imb_view b) k) \<longleftrightarrow> (k, t) \<in> fst ` set (committed b)"
  by (auto simp: domIff map_of_eq_None_iff)

lemma finite_imb_vers: "finite (dom (vers (imb_view b) k))"
proof (rule finite_subset)
  show "dom (vers (imb_view b) k) \<subseteq> (\<lambda>e. snd (fst e)) ` set (committed b)"
    using imb_vers_dom by force
qed simp

lemma imb_committed_keys: "committed_keys (imb_view b) = (\<lambda>e. fst (fst e)) ` set (committed b)"
  unfolding set_eq_iff committed_keys_iff imb_vers_dom by force

lemma imb_view_keys: "imb_valid b \<Longrightarrow> view_keys (imb_view b) = set (all_keys_set b)"
  by (simp add: view_keys_def imb_committed_keys imb_valid_def)

lemma imb_view_ok: "imb_valid b \<Longrightarrow> view_ok (imb_view b)"
  by (simp only: view_ok_def imb_view_keys finite_imb_vers) simp

text \<open>
  The entries of one key, restricted by a condition on the timestamp, are its history in
  ascending timestamp order.
\<close>

lemma key_entries_timestamps:
  assumes "btree_inv m"
  shows "map (\<lambda>e. snd (fst e)) (filter (\<lambda>e. fst (fst e) = k \<and> P (snd (fst e))) m) =
    sorted_list_of_set {t. (k, t) \<in> fst ` set m \<and> P t}"
proof (rule strict_sorted_eq_sorted_list_of_set)
  let ?L = "filter (\<lambda>e. fst (fst e) = k \<and> P (snd (fst e))) m"
  have "sorted_wrt (\<lambda>x y. fst x < fst y) ?L"
    using sorted_wrt_filter' [OF btree_inv_entries [OF assms]] .
  then have "sorted_wrt (\<lambda>x y. snd (fst x) < snd (fst y)) ?L"
    by (rule sorted_wrt_mono_rel [rotated]) (auto simp: less_prod_def)
  then show "strict_sorted_list (map (\<lambda>e. snd (fst e)) ?L)"
    by (simp add: sorted_wrt_map)
  show "set (map (\<lambda>e. snd (fst e)) ?L) = {t. (k, t) \<in> fst ` set m \<and> P t}"
    by force
qed

lemma key_entries:
  assumes "imb_valid b" and "h = vers (imb_view b) k"
  shows "filter (\<lambda>e. fst (fst e) = k \<and> P (snd (fst e))) (committed b) =
    map (\<lambda>t. ((k, t), the (h t))) (sorted_list_of_set {t \<in> dom h. P t})"
proof -
  let ?m = "committed b"
  let ?L = "filter (\<lambda>e. fst (fst e) = k \<and> P (snd (fst e))) ?m"
  have inv: "btree_inv ?m"
    using assms(1) by (simp add: imb_valid_def)
  have "{t \<in> dom h. P t} = {t. (k, t) \<in> fst ` set ?m \<and> P t}"
    using imb_vers_dom [of _ b k] assms(2) by blast
  then have ts: "map (\<lambda>e. snd (fst e)) ?L = sorted_list_of_set {t \<in> dom h. P t}"
    by (simp add: key_entries_timestamps [OF inv])
  have ent: "e = ((k, snd (fst e)), the (h (snd (fst e))))" if L: "e \<in> set ?L" for e
  proof -
    from L have "fst (fst e) = k"
      by simp
    then obtain t x where e: "e = ((k, t), x)"
      by (cases e) auto
    with L have "map_of ?m (k, t) = Some x"
      by (intro map_of_is_SomeI btree_inv_distinct inv) simp
    with e assms(2) show ?thesis
      by simp
  qed
  have "map (\<lambda>e. ((k, snd (fst e)), the (h (snd (fst e))))) ?L = ?L"
    by (rule map_idI) (rule ent [symmetric])
  then have "?L = map (\<lambda>t. ((k, t), the (h t))) (map (\<lambda>e. snd (fst e)) ?L)"
    by (simp add: o_def)
  with ts show ?thesis
    by simp
qed

text \<open>The three ranges the code scans start at \<open>(key, 0)\<close> and stay within one key.\<close>

lemma key_range_incl:
  assumes "btree_inv m"
  shows "btree_range_incl (k, Timestamp 0) (k, hi) m =
    filter (\<lambda>e. fst (fst e) = k \<and> snd (fst e) \<le> hi) m"
proof -
  have "(k, Timestamp 0) \<le> x \<and> x \<le> (k, hi) \<longleftrightarrow> fst x = k \<and> snd x \<le> hi" for x
    by (cases x) (auto simp: less_eq_prod_def)
  with assms show ?thesis
    by (simp add: btree_range_incl_eq)
qed

lemma key_range_excl:
  assumes "btree_inv m"
  shows "btree_range_excl (k, Timestamp 0) (k, hi) m =
    filter (\<lambda>e. fst (fst e) = k \<and> snd (fst e) < hi) m"
proof -
  have "(k, Timestamp 0) \<le> x \<and> x < (k, hi) \<longleftrightarrow> fst x = k \<and> snd x < hi" for x
    by (cases x) (auto simp: less_eq_prod_def less_prod_def)
  with assms show ?thesis
    by (simp add: btree_range_excl_eq)
qed

lemma iter_next_back_key_range:
  assumes "imb_valid b" and "h = vers (imb_view b) k"
  shows "iter_next_back (btree_range_incl (k, Timestamp 0) (k, hi) (committed b)) =
    map_option (\<lambda>t. ((k, t), the (h t))) (visible_ts h hi)"
proof -
  have inv: "btree_inv (committed b)"
    using assms(1) by (simp add: imb_valid_def)
  have fin: "finite {t \<in> dom h. t \<le> hi}"
    using finite_imb_vers [of b k] assms(2) by simp
  have "dom h \<inter> {..hi} = {t \<in> dom h. t \<le> hi}"
    by auto
  then show ?thesis
    using fin Max_eq_last_sorted [of "sorted_list_of_set {t \<in> dom h. t \<le> hi}"]
    by (auto simp: key_range_incl [OF inv] key_entries [OF assms, of "\<lambda>t. t \<le> hi"] iter_next_back_def
        visible_ts_def newest_ts_def last_map)
qed

lemma visible_ts_max [simp]: "visible_ts h timestamp_max = newest_ts h"
  by (simp add: visible_ts_def timestamp_max_def restrict_map_def atMost_def)

section \<open>The reads implement the contract\<close>

lemma imb_get_visible_committed_eq:
  assumes "imb_valid b"
  shows "imb_get_visible_committed b k ts =
    Ok (map_option (as_version k) (visible (vers (imb_view b) k) ts))"
  by (simp add: imb_get_visible_committed_def iter_next_back_key_range [OF assms refl] visible_def
      as_version_def split: option.splits)

lemma imb_get_latest_committed_eq:
  assumes "imb_valid b"
  shows "imb_get_latest_committed b k =
    Ok (map_option (\<lambda>t. as_version k (t, the (vers (imb_view b) k t)))
      (newest_ts (vers (imb_view b) k)))"
  by (simp add: imb_get_latest_committed_def iter_next_back_key_range [OF assms refl] as_version_def
      split: option.splits)

lemma imb_get_latest_commit_ts_eq:
  assumes "imb_valid b"
  shows "imb_get_latest_commit_ts b k = Ok (newest_ts (vers (imb_view b) k))"
  by (simp add: imb_get_latest_commit_ts_def iter_next_back_key_range [OF assms refl]
      split: option.splits)

text \<open>The scan for all versions of a key starts at \<open>(key, 0)\<close> and stops at the first other key.\<close>

lemma imb_collect_versions_eq:
  "imb_collect_versions k es =
     map (\<lambda>e. as_version k (snd (fst e), snd e)) (takeWhile (\<lambda>e. fst (fst e) = k) es)"
  by (induction k es rule: imb_collect_versions.induct) (auto simp: as_version_def)

lemma imb_get_committed_versions_eq:
  assumes "imb_valid b"
  shows "imb_get_committed_versions b k = Ok (version_list k (vers (imb_view b) k))"
proof -
  let ?m = "committed b" and ?h = "vers (imb_view b) k"
  have inv: "btree_inv ?m"
    using assms by (simp add: imb_valid_def)
  have low: "(k, Timestamp 0) \<le> x \<and> fst x \<le> k \<longleftrightarrow> fst x = k" for x
    by (cases x) (auto simp: less_eq_prod_def)
  have le: "(k, Timestamp 0) \<le> x \<Longrightarrow> fst x = k \<longleftrightarrow> fst x \<le> k" for x
    by (cases x) (auto simp: less_eq_prod_def)
  let ?F = "filter (\<lambda>e. (k, Timestamp 0) \<le> fst e) ?m"
  have "takeWhile (\<lambda>e. fst (fst e) = k) ?F = takeWhile (\<lambda>e. fst (fst e) \<le> k) ?F"
    by (rule takeWhile_cong) (auto dest: le)
  also have "\<dots> = filter (\<lambda>e. fst (fst e) \<le> k) ?F"
    by (rule takeWhile_fst_eq_filter [OF inv, of "\<lambda>x. fst x \<le> k"]) (auto simp: less_prod_def)
  also have "\<dots> = filter (\<lambda>e. fst (fst e) = k \<and> True) ?m"
    by (simp add: low)
  also have "\<dots> = map (\<lambda>t. ((k, t), the (?h t))) (sorted_list_of_set (dom ?h))"
    using key_entries [OF assms refl, where k = k and P = "\<lambda>_. True"] by simp
  finally show ?thesis
    by (simp add: imb_get_committed_versions_def btree_range_from_eq [OF inv]
        imb_collect_versions_eq version_list_def)
qed

lemma imb_get_committed_timestamps_before_eq:
  assumes "imb_valid b"
  shows "imb_get_committed_timestamps_before b k ts n =
    Ok (take (unat n) (older_desc (vers (imb_view b) k) ts))"
proof -
  let ?h = "vers (imb_view b) k"
  have inv: "btree_inv (committed b)"
    using assms by (simp add: imb_valid_def)
  have r: "btree_range_excl (k, Timestamp 0) (k, ts) (committed b) =
      map (\<lambda>t. ((k, t), the (?h t))) (sorted_list_of_set {t \<in> dom ?h. t < ts})"
    unfolding key_range_excl [OF inv] by (rule key_entries [OF assms refl])
  show ?thesis
    by (simp add: imb_get_committed_timestamps_before_def r older_desc_def rev_map take_map
        filter_map o_def)
qed

lemma imb_keys_from_eq:
  assumes "imb_valid b"
  shows "imb_keys_from b start n = Ok (v_keys_from (imb_view b) start (unat n))"
proof -
  have s: "strict_sorted_list (all_keys_set b)"
    using assms by (simp add: imb_valid_def)
  have "sorted_list_of_set (view_keys (imb_view b)) = all_keys_set b"
    using s imb_view_keys [OF assms] strict_sorted_eq_sorted_list_of_set by metis
  then show ?thesis
    by (simp add: imb_keys_from_def v_keys_from_def bset_range_from_eq [OF s] split: option.splits)
qed

text \<open>
  The prefix scan: keys with a given prefix are contiguous in the order, so stopping at the
  first key without it loses none; equal neighbours are reported once.
\<close>

lemma prefix_convex:
  fixes p x y :: "'a::linorder list"
  assumes "prefix p y" "p \<le> x" "x \<le> y"
  shows "prefix p x"
  using assms
proof (induction p arbitrary: x y)
  case (Cons a p)
  obtain y' where y: "y = a # y'" "prefix p y'"
    by (cases y) (use Cons.prems in auto)
  obtain c x' where x: "x = c # x'"
    by (cases x) (use Cons.prems in auto)
  have "a \<le> c" "c \<le> a"
    using Cons.prems x y by (auto simp: le_less)
  with Cons x y show ?case
    by auto
qed simp

lemma prefix_le: "prefix p s \<Longrightarrow> p \<le> s" for p :: "'a::linorder list"
proof (induction p arbitrary: s)
  case (Cons a p)
  then show ?case
    by (cases s) (use Cons in auto)
qed simp

lemma remdups_adj_head: "\<exists>zs. remdups_adj (x # xs) = x # zs"
  by (induction xs) auto

lemma imb_prefix_loop_snoc:
  assumes "Suc (length r) < unat n"
  shows "imb_prefix_loop p n es (r @ [x]) =
    take (unat n) (r @ remdups_adj (x # map (\<lambda>e. fst (fst e)) (takeWhile (\<lambda>e. prefix p (fst (fst e))) es)))"
  using assms
proof (induction p n es "r @ [x]" arbitrary: r x rule: imb_prefix_loop.induct)
  case (2 p limit k ts val es)
  consider "\<not> prefix p k" | "prefix p k" "k = x" | "prefix p k" "k \<noteq> x" by blast
  then show ?case
  proof cases
    case 3
    show ?thesis
    proof (cases "length ((r @ [x]) @ [k]) = unat limit")
      case True
      then have "unat limit - length r = 2"
        by simp
      with True 3 show ?thesis
        using remdups_adj_head [of k "map (\<lambda>e. fst (fst e)) (takeWhile (\<lambda>e. prefix p (fst (fst e))) es)"]
        by (auto simp: iter_next_back_def numeral_2_eq_2)
    next
      case False
      with 2(3) 3 show ?thesis
        using 2(1)[of "r @ [x]" k] by (auto simp: iter_next_back_def)
    qed
  qed (use 2 in \<open>auto simp: iter_next_back_def\<close>)
qed simp

lemma imb_prefix_loop_eq:
  assumes "n \<noteq> 0"
  shows "imb_prefix_loop p n es [] =
    take (unat n) (remdups_adj (map (\<lambda>e. fst (fst e)) (takeWhile (\<lambda>e. prefix p (fst (fst e))) es)))"
proof (cases es)
  case (Cons e es')
  obtain k ts val where e: "e = ((k, ts), val)"
    by (cases e) auto
  have "0 < unat n"
    using assms by (simp add: unat_gt_0)
  then consider "unat n = 1" | "1 < unat n" by linarith
  then show ?thesis
  proof cases
    case 1
    then show ?thesis
      using remdups_adj_head [of k "map (\<lambda>e. fst (fst e)) (takeWhile (\<lambda>e. prefix p (fst (fst e))) es')"]
      by (auto simp: Cons e iter_next_back_def)
  next
    case 2
    then show ?thesis
      using imb_prefix_loop_snoc [of "[]" n p es' k]
      by (auto simp: Cons e iter_next_back_def)
  qed
qed simp

lemma remdups_adj_strict_sorted:
  fixes xs :: "'a::linorder list"
  shows "sorted xs \<Longrightarrow> strict_sorted_list (remdups_adj xs)"
proof (induction xs rule: remdups_adj.induct)
  case (3 x y xs)
  then show ?case
    by (auto simp: less_le)
qed simp_all

lemma filter_sorted_list_of_set:
  assumes "finite A"
  shows "filter P (sorted_list_of_set A) = sorted_list_of_set {x \<in> A. P x}"
  using assms
  by (intro strict_sorted_eq_sorted_list_of_set strict_sorted_filter) auto

lemma imb_keys_from_prefix_eq:
  assumes valid: "imb_valid b" and ok: "imb_keys_from_prefix b p start n = Inr ks"
  shows "ks = v_keys_from_prefix (imb_view b) p start (unat n)"
proof (cases "n = 0")
  case True
  with ok show ?thesis
    by (simp add: imb_keys_from_prefix_def v_keys_from_prefix_def)
next
  case False
  let ?m = "committed b" and ?key = "\<lambda>e. fst (fst e)"
  define s where "s = (case start of Some s \<Rightarrow> s | None \<Rightarrow> p)"
  have inv: "btree_inv ?m"
    using valid by (simp add: imb_valid_def)
  from ok False have ps: "prefix p s"
    and ks: "ks = imb_prefix_loop p n (btree_range_from (s, Timestamp 0) ?m) []"
    by (auto simp: imb_keys_from_prefix_def s_def Let_def split: if_splits option.splits)
  have "(s, Timestamp 0) \<le> x \<longleftrightarrow> s \<le> fst x" for x
    by (cases x) (auto simp: less_eq_prod_def)
  then have F: "btree_range_from (s, Timestamp 0) ?m = filter (\<lambda>e. s \<le> ?key e) ?m" (is "_ = ?F")
    by (simp add: btree_range_from_eq [OF inv])
  have sF: "sorted_wrt (\<lambda>x y. ?key x \<le> ?key y) ?F"
    by (rule sorted_wrt_mono_rel [OF _ sorted_wrt_filter' [OF btree_inv_entries [OF inv]]])
      (auto simp: less_prod_def)
  have "prefix p (?key x)" if "x \<in> set ?F" "?key x \<le> ?key y" "prefix p (?key y)" for x y
    using prefix_convex [OF that(3) _ that(2)] that(1) order.trans [OF prefix_le [OF ps]] by auto
  then have "sorted_wrt (\<lambda>x y. prefix p (?key y) \<longrightarrow> prefix p (?key x)) ?F"
    by (intro sorted_wrt_mono_rel [OF _ sF]) blast
  then have tw: "takeWhile (\<lambda>e. prefix p (?key e)) ?F = filter (\<lambda>e. prefix p (?key e)) ?F"
    by (rule takeWhile_downclosed_eq_filter)
  let ?K = "map ?key (filter (\<lambda>e. prefix p (?key e)) ?F)"
  have "sorted ?K"
    using sorted_wrt_filter' [OF sF] by (simp add: sorted_wrt_map)
  then have "strict_sorted_list (remdups_adj ?K)"
    by (rule remdups_adj_strict_sorted)
  moreover have "set (remdups_adj ?K) = {k \<in> committed_keys (imb_view b). prefix p k \<and> s \<le> k}"
    by (auto simp: imb_committed_keys)
  ultimately have "remdups_adj ?K =
      sorted_list_of_set {k \<in> committed_keys (imb_view b). prefix p k \<and> s \<le> k}"
    by (rule strict_sorted_eq_sorted_list_of_set)
  then have "remdups_adj ?K =
      filter (\<lambda>k. prefix p k \<and> s \<le> k) (sorted_list_of_set (committed_keys (imb_view b)))"
    by (simp only: filter_sorted_list_of_set imb_committed_keys finite_imageI finite_set)
  moreover have "prefix p k \<and> s \<le> k \<longleftrightarrow> prefix p k \<and> (\<forall>s. start = Some s \<longrightarrow> s \<le> k)" for k
    by (auto simp: s_def prefix_le split: option.splits)
  ultimately show ?thesis
    by (simp add: ks F imb_prefix_loop_eq [OF False] tw v_keys_from_prefix_def)
qed

section \<open>The writes implement the contract\<close>

lemma imb_valid_iff:
  "imb_valid b \<longleftrightarrow>
     btree_inv (committed b) \<and> strict_sorted_list (all_keys_set b) \<and> set (all_keys_set b) = imb_live b"
  by (simp add: imb_valid_def imb_live_def)

lemma iter_next_None: "iter_next xs = None \<longleftrightarrow> xs = []"
  by (simp add: iter_next_def split: list.splits)

lemma imb_view_maybe_remove [simp]: "imb_view (maybe_remove_from_keys b k) = imb_view b"
  by (simp add: maybe_remove_from_keys_def imb_view_def)

lemma maybe_remove_from_keys_valid:
  assumes "btree_inv (committed b)" "strict_sorted_list (all_keys_set b)"
    and "imb_live b \<subseteq> set (all_keys_set b)" "set (all_keys_set b) \<subseteq> insert k (imb_live b)"
  shows "imb_valid (maybe_remove_from_keys b k)"
proof -
  have "iter_next (btree_range_incl (k, Timestamp 0) (k, timestamp_max) (committed b)) = None \<longleftrightarrow>
      k \<notin> (\<lambda>e. fst (fst e)) ` set (committed b)"
    by (auto simp: key_range_incl [OF assms(1)] iter_next_None timestamp_max_def filter_empty_conv)
  then have "maybe_remove_from_keys b k =
      (if k \<in> imb_live b then b else b\<lparr>all_keys_set := bset_remove k (all_keys_set b)\<rparr>)"
    by (auto simp: maybe_remove_from_keys_def imb_live_def)
  moreover have "imb_live (b\<lparr>all_keys_set := x\<rparr>) = imb_live b" for x
    by (simp add: imb_live_def)
  ultimately show ?thesis
    using assms by (auto simp: imb_valid_iff set_bset_remove bset_remove_sorted)
qed

lemma imb_insert_intent_step:
  assumes "imb_valid b"
  shows "imb_valid (imb_insert_intent i b)"
    and "imb_view (imb_insert_intent i b) = v_put_intent i (imb_view b)"
  using assms
  by (auto simp: imb_valid_def imb_insert_intent_def bset_insert_sorted imb_view_def v_put_intent_def)

lemma imb_insert_version_step:
  assumes "imb_valid b"
  shows "imb_valid (imb_insert_version c b)"
    and "imb_view (imb_insert_version c b) = v_put_committed c (imb_view b)"
proof -
  have "fst ` fst ` set (btree_insert (cv_key c, cv_commit_ts c) (cv_value c) (committed b)) =
      insert (cv_key c) (fst ` fst ` set (committed b))"
    by (simp add: set_btree_insert)
  then show "imb_valid (imb_insert_version c b)"
    using assms
    by (simp add: imb_valid_def imb_insert_version_def bset_insert_sorted btree_insert_inv image_image)
  show "imb_view (imb_insert_version c b) = v_put_committed c (imb_view b)"
    by (auto simp: imb_insert_version_def imb_view_def v_put_committed_def map_of_btree_insert fun_eq_iff)
qed

lemma imb_drop_intent_step:
  assumes "imb_valid b"
  shows "imb_valid (imb_drop_intent k b)"
    and "imb_view (imb_drop_intent k b) = (imb_view b)\<lparr>locks := (locks (imb_view b))(k := None)\<rparr>"
proof -
  show "imb_valid (imb_drop_intent k b)"
    unfolding imb_drop_intent_def
    by (rule maybe_remove_from_keys_valid) (use assms in \<open>auto simp: imb_valid_def imb_live_def\<close>)
  show "imb_view (imb_drop_intent k b) = (imb_view b)\<lparr>locks := (locks (imb_view b))(k := None)\<rparr>"
    by (simp add: imb_drop_intent_def) (simp add: imb_view_def)
qed

lemma imb_intent_matches_iff: "imb_intent_matches b k txn s \<longleftrightarrow> owns (imb_view b) k txn s"
  by (auto simp: imb_intent_matches_def owns_def split: option.splits)

lemma imb_remove_matching_step:
  assumes "imb_valid b"
  shows "imb_valid (imb_remove_matching r b)"
    and "imb_view (imb_remove_matching r b) = v_remove_intent r (imb_view b)"
  using imb_drop_intent_step [OF assms] assms
  by (auto simp: imb_remove_matching_def imb_intent_matches_iff v_remove_intent_def split: prod.splits)

lemma imb_remove_versions_step:
  assumes "imb_valid b"
    and "m = fold (\<lambda>t. btree_remove (k, t)) ts (committed b)"
  shows "imb_valid (maybe_remove_from_keys (b\<lparr>committed := m\<rparr>) k)"
    and "imb_view (maybe_remove_from_keys (b\<lparr>committed := m\<rparr>) k) =
      v_remove_versions k (set ts) (imb_view b)"
proof -
  have m: "btree_inv m \<and> map_of m = (\<lambda>x. if x \<in> Pair k ` set ts then None else map_of (committed b) x)"
    using assms(1) unfolding assms(2) imb_valid_def
  proof (induction ts arbitrary: b rule: rev_induct)
    case (snoc t ts)
    then show ?case
      by (auto simp: btree_remove_inv map_of_btree_remove fun_eq_iff)
  qed simp
  have dom: "fst ` set m = fst ` set (committed b) - Pair k ` set ts"
    using m by (auto simp: dom_map_of_conv_image_fst [symmetric] domIff split: if_splits)
  have diff: "fst ` D \<subseteq> insert k (fst ` (D - Pair k ` T))" for D :: "(key \<times> timestamp) set" and T
    by (auto simp: image_iff)
  have "fst ` fst ` set (committed b) \<subseteq> insert k (fst ` fst ` set m)"
    unfolding dom by (rule diff)
  moreover have "fst ` fst ` set m \<subseteq> fst ` fst ` set (committed b)"
    unfolding dom by blast
  ultimately show "imb_valid (maybe_remove_from_keys (b\<lparr>committed := m\<rparr>) k)"
    using m assms(1)
    by (intro maybe_remove_from_keys_valid) (auto simp: imb_valid_def imb_live_def image_image)
  show "imb_view (maybe_remove_from_keys (b\<lparr>committed := m\<rparr>) k) =
      v_remove_versions k (set ts) (imb_view b)"
    using m by (simp, auto simp: imb_view_def v_remove_versions_def restrict_map_def fun_eq_iff)
qed

text \<open>Every loop of the batch methods is a fold of single steps.\<close>

lemma imb_fold_step:
  assumes "\<And>x b. imb_valid b \<Longrightarrow> imb_valid (f x b) \<and> imb_view (f x b) = g x (imb_view b)"
    and "imb_valid b"
  shows "imb_valid (fold f xs b) \<and> imb_view (fold f xs b) = fold g xs (imb_view b)"
  using assms(2) by (induction xs arbitrary: b) (simp_all add: assms(1))

lemma imb_fold_insert_intent:
  "imb_valid b \<Longrightarrow> imb_valid (fold imb_insert_intent is b) \<and>
   imb_view (fold imb_insert_intent is b) = fold v_put_intent is (imb_view b)"
  by (rule imb_fold_step) (simp_all add: imb_insert_intent_step)

lemma imb_fold_insert_version:
  "imb_valid b \<Longrightarrow> imb_valid (fold imb_insert_version cs b) \<and>
   imb_view (fold imb_insert_version cs b) = fold v_put_committed cs (imb_view b)"
  by (rule imb_fold_step) (simp_all add: imb_insert_version_step)

lemma imb_fold_remove_matching:
  "imb_valid b \<Longrightarrow> imb_valid (fold imb_remove_matching rs b) \<and>
   imb_view (fold imb_remove_matching rs b) = fold v_remove_intent rs (imb_view b)"
  by (rule imb_fold_step) (simp_all add: imb_remove_matching_step)

section \<open>The in-memory backend implements the contract\<close>

lemma in_memory_ops_sel [simp]:
  "get_committed_versions in_memory_ops = imb_get_committed_versions"
  "get_latest_committed in_memory_ops = imb_get_latest_committed"
  "get_visible_committed in_memory_ops = imb_get_visible_committed"
  "get_latest_commit_ts in_memory_ops = imb_get_latest_commit_ts"
  "get_intent in_memory_ops = imb_get_intent"
  "put_intent in_memory_ops = imb_put_intent"
  "remove_intent in_memory_ops = imb_remove_intent"
  "put_committed in_memory_ops = imb_put_committed"
  "put_committed_batch in_memory_ops = imb_put_committed_batch"
  "remove_committed_version in_memory_ops = imb_remove_committed_version"
  "all_keys in_memory_ops = imb_all_keys"
  "put_intents_batch in_memory_ops = imb_put_intents_batch"
  "commit_intents_batch in_memory_ops = imb_commit_intents_batch"
  "remove_intents_batch in_memory_ops = imb_remove_intents_batch"
  "keys_from in_memory_ops = imb_keys_from"
  "keys_from_prefix in_memory_ops = imb_keys_from_prefix"
  "get_committed_timestamps_before in_memory_ops = imb_get_committed_timestamps_before"
  "collapse_tombstone in_memory_ops = imb_collapse_tombstone"
  by (simp_all add: in_memory_ops_def)

lemmas imb_read_defs = imb_get_intent_def imb_all_keys_def

lemmas imb_write_defs = imb_put_intent_def imb_remove_intent_def imb_put_committed_def
  imb_put_committed_batch_def imb_remove_committed_version_def imb_put_intents_batch_def
  imb_commit_intents_batch_def imb_remove_intents_batch_def imb_collapse_tombstone_def

lemma imb_all_keys_eq:
  "imb_valid b \<Longrightarrow> imb_all_keys b = Ok (sorted_list_of_set (view_keys (imb_view b)))"
  unfolding imb_all_keys_def imb_view_keys
  by (simp add: strict_sorted_eq_sorted_list_of_set imb_valid_def)

interpretation imb_reads: backend_reads in_memory_ops imb_valid imb_view
  by unfold_locales
    (simp_all only: in_memory_ops_sel imb_view_ok imb_get_committed_versions_eq
      imb_get_latest_committed_eq imb_get_visible_committed_eq imb_get_latest_commit_ts_eq
      imb_get_intent_def imb_view_simps imb_all_keys_eq imb_keys_from_eq imb_keys_from_prefix_eq
      imb_get_committed_timestamps_before_eq sum.inject)

lemma imb_remove_intent_atomic:
  assumes "imb_valid b"
  shows "atomic_step imb_valid imb_view b (imb_remove_intent b k txn s)
    (v_remove_intent (k, txn, s) (imb_view b))"
  using imb_remove_matching_step [OF assms, of "(k, txn, s)"]
  by (simp add: atomic_step_def imb_remove_intent_def imb_remove_matching_def split: if_splits)

lemma imb_remove_version_atomic:
  assumes "imb_valid b"
  shows "atomic_step imb_valid imb_view b (imb_remove_committed_version b k t)
    (v_remove_versions k {t} (imb_view b))"
  using imb_remove_versions_step [OF assms refl, of k "[t]"]
  by (simp add: atomic_step_def imb_remove_committed_version_def)

lemma imb_collapse_atomic:
  assumes "imb_valid b"
  shows "atomic_step imb_valid imb_view b (imb_collapse_tombstone b k t tss)
    (v_remove_versions k (insert t (set tss)) (imb_view b))"
  using imb_remove_versions_step [OF assms refl, of k "t # tss"]
  by (simp add: atomic_step_def imb_collapse_tombstone_def Let_def)

lemma imb_commit_intents_batch_atomic:
  assumes "imb_valid b"
  shows "atomic_step imb_valid imb_view b (imb_commit_intents_batch b cs rs)
    (fold v_remove_intent rs (fold v_put_committed cs (imb_view b)))"
  using imb_fold_insert_version [OF assms, of cs] imb_fold_remove_matching
  by (simp add: atomic_step_def imb_commit_intents_batch_def)

lemma imb_puts_atomic:
  assumes "imb_valid b"
  shows "atomic_step imb_valid imb_view b (imb_put_intent b i) (v_put_intent i (imb_view b))"
    and "atomic_step imb_valid imb_view b (imb_put_committed b c) (v_put_committed c (imb_view b))"
    and "atomic_step imb_valid imb_view b (imb_put_committed_batch b cs)
      (fold v_put_committed cs (imb_view b))"
    and "atomic_step imb_valid imb_view b (imb_put_intents_batch b is)
      (fold v_put_intent is (imb_view b))"
    and "atomic_step imb_valid imb_view b (imb_remove_intents_batch b rs)
      (fold v_remove_intent rs (imb_view b))"
  using assms imb_insert_intent_step imb_insert_version_step imb_fold_insert_intent
    imb_fold_insert_version imb_fold_remove_matching
  by (simp_all add: atomic_step_def imb_write_defs)

lemma imb_remove_intent_result:
  "fst (imb_remove_intent b k txn s) = Inr x \<Longrightarrow> x = owns (imb_view b) k txn s"
  by (simp add: imb_remove_intent_def imb_intent_matches_iff split: if_splits)

interpretation imb_contract: backend_contract in_memory_ops imb_valid imb_view
  by unfold_locales
    (simp_all only: in_memory_ops_sel imb_puts_atomic imb_remove_intent_atomic
      imb_remove_version_atomic imb_collapse_atomic imb_commit_intents_batch_atomic
      imb_remove_intent_result)

lemma imb_keys_from_prefix_isl:
  "isl (imb_keys_from_prefix b p start n) \<longleftrightarrow> n \<noteq> 0 \<and> bad_prefix_scan p start"
  by (auto simp: imb_keys_from_prefix_def bad_prefix_scan_def Let_def split: option.splits)

interpretation imb: total_backend in_memory_ops imb_valid imb_view
  by unfold_locales
    (simp_all add: imb_get_committed_versions_def imb_get_visible_committed_eq imb_get_latest_commit_ts_eq imb_read_defs
      imb_get_latest_committed_eq imb_keys_from_eq imb_keys_from_prefix_isl
      imb_get_committed_timestamps_before_eq imb_write_defs Let_def)

lemma in_memory_new_valid [simp]: "imb_valid in_memory_new"
  by (simp add: imb_valid_def in_memory_new_def btree_inv_def)

lemma in_memory_new_view [simp]:
  "vers (imb_view in_memory_new) = (\<lambda>k. Map.empty)" "locks (imb_view in_memory_new) = Map.empty"
  by (simp_all add: imb_view_def in_memory_new_def)

text \<open>From here on a state is seen through its view only.\<close>

declare imb_view_simps [simp del]

end
