(* ===== verification/Failing_Backend.thy ===== *)
theory Failing_Backend
  imports In_Memory_Backend
begin

text \<open>
  The fault-injecting backend of the failure tests: it delegates to an in-memory backend, counts
  the mutating calls and refuses the batch transitions whose flag is set. It keeps the backend
  contract without being total, so it instantiates every result about failing backends.
\<close>

record failing_backend =
  inner :: in_memory
  fail_on_put_batch :: bool
  put_batch_calls :: nat
  fail_on_put_intents :: bool
  put_intents_calls :: nat
  fail_on_commit_intents :: bool
  commit_intents_calls :: nat
  fail_on_remove_intents :: bool
  remove_intents_calls :: nat
  put_committed_calls :: nat
  remove_intent_calls :: nat

definition failing_new :: failing_backend where
  "failing_new =
     \<lparr>inner = in_memory_new, fail_on_put_batch = False, put_batch_calls = 0,
      fail_on_put_intents = False, put_intents_calls = 0, fail_on_commit_intents = False,
      commit_intents_calls = 0, fail_on_remove_intents = False, remove_intents_calls = 0,
      put_committed_calls = 0, remove_intent_calls = 0\<rparr>"

text \<open>A delegated call: run on the inner backend and store what it leaves.\<close>

definition on_inner :: "(in_memory \<Rightarrow> 'r \<times> in_memory) \<Rightarrow> failing_backend \<Rightarrow> 'r \<times> failing_backend" where
  "on_inner f b = (case f (inner b) of (r, i) \<Rightarrow> (r, b\<lparr>inner := i\<rparr>))"

lemma fst_on_inner: "fst (on_inner f b) = fst (f (inner b))"
  by (simp add: on_inner_def split: prod.splits)

definition simulated_failure :: string where
  "simulated_failure = ''simulated backend failure''"

definition fb_remove_intent ::
  "failing_backend \<Rightarrow> key \<Rightarrow> txn_id \<Rightarrow> timestamp \<Rightarrow> (string + bool) \<times> failing_backend" where
  "fb_remove_intent b key txn_id start_ts =
     on_inner (\<lambda>i. imb_remove_intent i key txn_id start_ts)
       (b\<lparr>remove_intent_calls := remove_intent_calls b + 1\<rparr>)"

definition fb_put_committed ::
  "failing_backend \<Rightarrow> committed_version \<Rightarrow> (string + unit) \<times> failing_backend" where
  "fb_put_committed b version =
     on_inner (\<lambda>i. imb_put_committed i version) (b\<lparr>put_committed_calls := put_committed_calls b + 1\<rparr>)"

definition fb_put_committed_batch ::
  "failing_backend \<Rightarrow> committed_version list \<Rightarrow> (string + unit) \<times> failing_backend" where
  "fb_put_committed_batch b commits =
     (let b' = b\<lparr>put_batch_calls := put_batch_calls b + 1\<rparr> in
      if fail_on_put_batch b' then (Err simulated_failure, b')
      else on_inner (\<lambda>i. imb_put_committed_batch i commits) b')"

definition fb_put_intents_batch ::
  "failing_backend \<Rightarrow> intent list \<Rightarrow> (string + unit) \<times> failing_backend" where
  "fb_put_intents_batch b is =
     (let b' = b\<lparr>put_intents_calls := put_intents_calls b + 1\<rparr> in
      if fail_on_put_intents b' then (Err simulated_failure, b')
      else on_inner (\<lambda>i. imb_put_intents_batch i is) b')"

definition fb_commit_intents_batch ::
  "failing_backend \<Rightarrow> committed_version list \<Rightarrow> (key \<times> txn_id \<times> timestamp) list \<Rightarrow>
   (string + unit) \<times> failing_backend" where
  "fb_commit_intents_batch b commits removed_intents =
     (let b' = b\<lparr>commit_intents_calls := commit_intents_calls b + 1\<rparr> in
      if fail_on_commit_intents b' then (Err simulated_failure, b')
      else on_inner (\<lambda>i. imb_commit_intents_batch i commits removed_intents) b')"

definition fb_remove_intents_batch ::
  "failing_backend \<Rightarrow> (key \<times> txn_id \<times> timestamp) list \<Rightarrow> (string + unit) \<times> failing_backend" where
  "fb_remove_intents_batch b removed =
     (let b' = b\<lparr>remove_intents_calls := remove_intents_calls b + 1\<rparr> in
      if fail_on_remove_intents b' then (Err simulated_failure, b')
      else on_inner (\<lambda>i. imb_remove_intents_batch i removed) b')"

definition failing_ops :: "failing_backend backend" where
  "failing_ops =
     \<lparr>get_committed_versions = \<lambda>b. imb_get_committed_versions (inner b),
      get_latest_committed = \<lambda>b. imb_get_latest_committed (inner b),
      get_visible_committed = \<lambda>b. imb_get_visible_committed (inner b),
      get_latest_commit_ts = \<lambda>b. imb_get_latest_commit_ts (inner b),
      get_intent = \<lambda>b. imb_get_intent (inner b),
      put_intent = \<lambda>b i. on_inner (\<lambda>m. imb_put_intent m i) b,
      remove_intent = fb_remove_intent,
      put_committed = fb_put_committed,
      put_committed_batch = fb_put_committed_batch,
      remove_committed_version = \<lambda>b k t. on_inner (\<lambda>m. imb_remove_committed_version m k t) b,
      all_keys = \<lambda>b. imb_all_keys (inner b),
      put_intents_batch = fb_put_intents_batch,
      commit_intents_batch = fb_commit_intents_batch,
      remove_intents_batch = fb_remove_intents_batch,
      keys_from = \<lambda>b. imb_keys_from (inner b),
      keys_from_prefix = \<lambda>b. imb_keys_from_prefix (inner b),
      get_committed_timestamps_before = \<lambda>b. imb_get_committed_timestamps_before (inner b),
      collapse_tombstone = \<lambda>b k t tss. on_inner (\<lambda>m. imb_collapse_tombstone m k t tss) b\<rparr>"

section \<open>It keeps the contract\<close>

definition fb_valid :: "failing_backend \<Rightarrow> bool" where
  "fb_valid b \<longleftrightarrow> imb_valid (inner b)"

definition fb_view :: "failing_backend \<Rightarrow> mvcc_view" where
  "fb_view b = imb_view (inner b)"

lemma on_inner_atomic:
  assumes "atomic_step imb_valid imb_view (inner b) (f (inner b)) v'" and "inner b = inner b0"
  shows "atomic_step fb_valid fb_view b0 (on_inner f b) v'"
  using assms by (auto simp: atomic_step_def on_inner_def fb_valid_def fb_view_def split: prod.splits)

lemma refused_atomic:
  "imb_valid (inner b0) \<Longrightarrow> inner b = inner b0 \<Longrightarrow> atomic_step fb_valid fb_view b0 (Err msg, b) v'"
  by (simp add: atomic_step_def fb_valid_def fb_view_def)

lemma fb_atomic:
  assumes "imb_valid (inner b)"
  shows "atomic_step fb_valid fb_view b (fb_put_committed_batch b cs) (fold v_put_committed cs (fb_view b))"
    and "atomic_step fb_valid fb_view b (fb_put_intents_batch b is) (fold v_put_intent is (fb_view b))"
    and "atomic_step fb_valid fb_view b (fb_commit_intents_batch b cs rs)
      (fold v_remove_intent rs (fold v_put_committed cs (fb_view b)))"
    and "atomic_step fb_valid fb_view b (fb_remove_intents_batch b rs) (fold v_remove_intent rs (fb_view b))"
  using assms imb_contract.put_committed_batch_law [OF assms, of cs]
    imb_contract.put_intents_batch_law [OF assms, of "is"]
    imb_contract.commit_intents_batch_law [OF assms, of cs rs]
    imb_contract.remove_intents_batch_law [OF assms, of rs]
  by (auto simp: fb_put_committed_batch_def fb_put_intents_batch_def fb_commit_intents_batch_def
      fb_remove_intents_batch_def Let_def fb_view_def in_memory_ops_sel
      intro!: refused_atomic on_inner_atomic)

interpretation fb_reads: backend_reads failing_ops fb_valid fb_view
  by unfold_locales
    (use imb_reads.valid_view_ok imb_reads.get_committed_versions_law imb_reads.get_latest_committed_law
       imb_reads.get_visible_committed_law imb_reads.get_latest_commit_ts_law imb_reads.get_intent_law
       imb_reads.all_keys_law imb_reads.keys_from_law imb_reads.keys_from_prefix_law
       imb_reads.get_committed_timestamps_before_law
     in \<open>simp_all only: failing_ops_def backend.simps fb_valid_def fb_view_def in_memory_ops_sel\<close>)

interpretation fb: backend_contract failing_ops fb_valid fb_view
proof
  fix b i k txn s c t tss x cs "is" rs
  assume "fb_valid b"
  then have b: "imb_valid (inner b)"
    by (simp add: fb_valid_def)
  note laws = imb_contract.put_intent_law [OF b] imb_contract.remove_intent_law [OF b]
    imb_contract.put_committed_law [OF b] imb_contract.remove_committed_version_law [OF b]
    imb_contract.collapse_tombstone_law [OF b]
  note defs = failing_ops_def backend.simps fb_view_def fb_remove_intent_def fb_put_committed_def
  show "atomic_step fb_valid fb_view b (put_intent failing_ops b i) (v_put_intent i (fb_view b))"
    using laws by (auto simp: defs in_memory_ops_sel intro!: on_inner_atomic)
  show "atomic_step fb_valid fb_view b (remove_intent failing_ops b k txn s)
      (v_remove_intent (k, txn, s) (fb_view b))"
    using laws by (auto simp: defs in_memory_ops_sel intro!: on_inner_atomic)
  show "atomic_step fb_valid fb_view b (put_committed failing_ops b c) (v_put_committed c (fb_view b))"
    using laws by (auto simp: defs in_memory_ops_sel intro!: on_inner_atomic)
  show "atomic_step fb_valid fb_view b (remove_committed_version failing_ops b k t)
      (v_remove_versions k {t} (fb_view b))"
    using laws by (auto simp: defs in_memory_ops_sel intro!: on_inner_atomic)
  show "atomic_step fb_valid fb_view b (collapse_tombstone failing_ops b k t tss)
      (v_remove_versions k (insert t (set tss)) (fb_view b))"
    using laws by (auto simp: defs in_memory_ops_sel intro!: on_inner_atomic)
  show "x = owns (fb_view b) k txn s" if "fst (remove_intent failing_ops b k txn s) = Inr x"
    using that imb_contract.remove_intent_result [OF b, of k txn s x]
    by (auto simp: defs in_memory_ops_sel on_inner_def split: prod.splits)
  show "atomic_step fb_valid fb_view b (put_committed_batch failing_ops b cs) (fold v_put_committed cs (fb_view b))"
    and "atomic_step fb_valid fb_view b (put_intents_batch failing_ops b is) (fold v_put_intent is (fb_view b))"
    and "atomic_step fb_valid fb_view b (commit_intents_batch failing_ops b cs rs)
      (fold v_remove_intent rs (fold v_put_committed cs (fb_view b)))"
    and "atomic_step fb_valid fb_view b (remove_intents_batch failing_ops b rs) (fold v_remove_intent rs (fb_view b))"
    using fb_atomic [OF b] by (simp_all add: failing_ops_def)
qed

text \<open>The calls of garbage collection are all delegated, so that they never fail.\<close>

interpretation fb_history: history_store failing_ops fb_valid fb_view
  by unfold_locales
    (use imb.history_reads imb.history_removals
     in \<open>simp_all add: failing_ops_def fb_valid_def in_memory_ops_sel fst_on_inner\<close>)

lemma failing_new_valid [simp]: "fb_valid failing_new"
  by (simp add: fb_valid_def failing_new_def)

end
