(* ===== verification/Mvcc_Examples.thy ===== *)
theory Mvcc_Examples
  imports Failing_Backend Mvcc_Schedule
begin

text \<open>
  Small concrete engine states, built by running the engine: a key with one version, the same with
  a pending intent, the same deleted. The properties are exercised on them.
\<close>

definition ex_write :: "timestamp \<Rightarrow> val option \<Rightarrow> action" where
  "ex_write c x = DirectBatch c [\<lparr>pw_key = [1], pw_value = x\<rparr>]"

definition ex_put :: in_memory where
  "ex_put = snd (apply_direct_batch in_memory_ops in_memory_new (Timestamp 5)
     [\<lparr>pw_key = [1], pw_value = Some [7]\<rparr>])"

definition ex_intent :: in_memory where
  "ex_intent = snd (prewrite in_memory_ops ex_put (TxnId 1) (Timestamp 6) [1] (Put [8]))"

definition ex_deleted :: in_memory where
  "ex_deleted = snd (apply_direct_batch in_memory_ops ex_put (Timestamp 8)
     [\<lparr>pw_key = [1], pw_value = None\<rparr>])"

definition ex_updated :: in_memory where
  "ex_updated = snd (apply_direct_batch in_memory_ops ex_put (Timestamp 8)
     [\<lparr>pw_key = [1], pw_value = Some [9]\<rparr>])"

lemma ex_put_view:
  "imb_valid ex_put" "vers (imb_view ex_put) = (\<lambda>_. Map.empty)([1] := [Timestamp 5 \<mapsto> Some [7]])"
  "locks (imb_view ex_put) = Map.empty"
proof -
  let ?w = "[\<lparr>pw_key = [1], pw_value = Some [7]\<rparr>] :: physical_write list"
  have "writes_ok (imb_view in_memory_new) (Timestamp 5) ?w"
    by (simp add: writes_ok_def above_all_def)
  then have "imb_valid ex_put \<and> imb_view ex_put = write_view (imb_view in_memory_new) (Timestamp 5) ?w"
    using imb.apply_direct_batch_exact [OF in_memory_new_valid, of "Timestamp 5" ?w]
    by (simp add: ex_put_def batch_exact_def split: prod.splits)
  then show "imb_valid ex_put" "vers (imb_view ex_put) = (\<lambda>_. Map.empty)([1] := [Timestamp 5 \<mapsto> Some [7]])"
    "locks (imb_view ex_put) = Map.empty"
    by (auto simp: write_view_def fun_eq_iff)
qed

lemma ex_second_write:
  assumes "e = snd (apply_direct_batch in_memory_ops ex_put (Timestamp 8) [\<lparr>pw_key = [1], pw_value = x\<rparr>])"
  shows "imb_valid e"
    "vers (imb_view e) = (\<lambda>_. Map.empty)([1] := [Timestamp 5 \<mapsto> Some [7], Timestamp 8 \<mapsto> x])"
    "locks (imb_view e) = Map.empty"
proof -
  let ?w = "[\<lparr>pw_key = [1], pw_value = x\<rparr>] :: physical_write list"
  have "writes_ok (imb_view ex_put) (Timestamp 8) ?w"
    by (simp add: writes_ok_def above_all_def ex_put_view)
  then have "imb_valid e \<and> imb_view e = write_view (imb_view ex_put) (Timestamp 8) ?w"
    using imb.apply_direct_batch_exact [OF ex_put_view(1), of "Timestamp 8" ?w]
    by (simp add: assms batch_exact_def split: prod.splits)
  then show "imb_valid e"
    "vers (imb_view e) = (\<lambda>_. Map.empty)([1] := [Timestamp 5 \<mapsto> Some [7], Timestamp 8 \<mapsto> x])"
    "locks (imb_view e) = Map.empty"
    by (auto simp: write_view_def fun_eq_iff ex_put_view)
qed

lemmas ex_deleted_view = ex_second_write [OF ex_deleted_def]
lemmas ex_updated_view = ex_second_write [OF ex_updated_def]

lemma ex_intent_view:
  "imb_valid ex_intent" "vers (imb_view ex_intent) = vers (imb_view ex_put)"
  "locks (imb_view ex_intent) = [[1] \<mapsto> \<lparr>intent_key = [1], intent_txn_id = TxnId 1,
     intent_start_ts = Timestamp 6, intent_mutation = Put [8], intent_min_commit_ts = None\<rparr>]"
proof -
  obtain r where "prewrite in_memory_ops ex_put (TxnId 1) (Timestamp 6) [1] (Put [8]) = (r, ex_intent)"
    by (cases "prewrite in_memory_ops ex_put (TxnId 1) (Timestamp 6) [1] (Put [8])") (simp add: ex_intent_def)
  note spec = imb.prewrite_exact [OF ex_put_view(1) this]
  then show "imb_valid ex_intent" "vers (imb_view ex_intent) = vers (imb_view ex_put)"
    "locks (imb_view ex_intent) = [[1] \<mapsto> \<lparr>intent_key = [1], intent_txn_id = TxnId 1,
     intent_start_ts = Timestamp 6, intent_mutation = Put [8], intent_min_commit_ts = None\<rparr>]"
    by (auto simp: spec_prewrite_def ex_put_view no_newer_def split: if_splits)
qed

lemmas ex_valid [simp] = ex_put_view(1) ex_intent_view(1) ex_deleted_view(1) ex_updated_view(1)
lemmas ex_views = ex_put_view(2,3) ex_intent_view(2,3) ex_deleted_view(2,3) ex_updated_view(2,3)

lemma ex_runs:
  "apply_schedule in_memory_ops in_memory_new [ex_write (Timestamp 5) (Some [7])] = Some ex_put"
  "apply_schedule in_memory_ops in_memory_new
     [ex_write (Timestamp 5) (Some [7]), Prewrite (TxnId 1) (Timestamp 6) [1] (Put [8])] = Some ex_intent"
  by (simp_all add: ex_write_def forget_err_def ex_put_def ex_intent_def split: prod.splits)

end
