(* ===== verification/Engine_Properties.thy ===== *)
theory Engine_Properties
  imports Mvcc_Examples
begin

text \<open>
  The properties of the transactional operations on the in-memory backend, on the fault-injecting
  backend and on backends in general, each followed by an instance on a concrete state.
\<close>

section \<open>Validation happens before mutation\<close>

text \<open>
  Whatever the backend does: an error other than a backend failure is returned before any mutating
  method has been called, so the engine state is the very same.
\<close>

lemma prewrite_pure:
  "prewrite B e txn s k m = (Inl err, e') \<Longrightarrow> \<forall>msg. err \<noteq> prewrite_error.Backend msg \<Longrightarrow> e' = e"
  by (auto simp: prewrite_def split: sum.splits option.splits if_splits prod.splits)

lemma commit_pure:
  "commit B e txn k s c = (Inl err, e') \<Longrightarrow> \<forall>msg. err \<noteq> commit_error.Backend msg \<Longrightarrow> e' = e"
  by (auto simp: commit_def commit_apply_def split: sum.splits option.splits if_splits prod.splits)

lemma prewrite_batch_pure:
  "prewrite_batch B e txn s ws = (Inl err, e') \<Longrightarrow> \<forall>msg. err \<noteq> batch_prewrite_error.Backend msg \<Longrightarrow> e' = e"
  by (auto simp: prewrite_batch_def split: sum.splits option.splits if_splits prod.splits)

lemma commit_batch_pure:
  "commit_batch B e txn s c ks = (Inl err, e') \<Longrightarrow> \<forall>msg. err \<noteq> batch_commit_error.Backend msg \<Longrightarrow> e' = e"
  by (auto simp: commit_batch_def split: sum.splits option.splits if_splits prod.splits)

lemma abort_batch_pure:
  "abort_batch B e txn s ks = (Inl err, e') \<Longrightarrow> \<forall>msg. err \<noteq> batch_abort_error.Backend msg \<Longrightarrow> e' = e"
  by (auto simp: abort_batch_def split: sum.splits option.splits if_splits prod.splits)

lemma apply_writes_only_backend:
  "apply_writes B e c ws = (Inl err, e') \<Longrightarrow> \<exists>msg. err = batch_error.Backend msg"
  by (auto simp: apply_writes_def split: prod.splits)

lemma apply_direct_batch_pure:
  "apply_direct_batch B e c ws = (Inl err, e') \<Longrightarrow> \<forall>msg. err \<noteq> batch_error.Backend msg \<Longrightarrow> e' = e"
  by (auto simp: apply_direct_batch_def split: sum.splits option.splits if_splits
      dest: apply_writes_only_backend)

lemma apply_guarded_batch_pure:
  "apply_guarded_batch B e c gs ws = (Inl err, e') \<Longrightarrow> \<forall>msg. err \<noteq> batch_error.Backend msg \<Longrightarrow> e' = e"
  by (auto simp: apply_guarded_batch_def split: sum.splits option.splits if_splits
      dest: apply_writes_only_backend)

text \<open>
  C34. On every backend, even one that breaks its contract: a batch or single-key call that fails with
  anything but a backend error returns the engine state it was given, so no mutating backend method ran.
\<close>

theorem validation_errors_touch_nothing:
  "(\<forall>err e'. prewrite B e txn s k m = (Inl err, e') \<and> (\<forall>msg. err \<noteq> prewrite_error.Backend msg) \<longrightarrow> e' = e) \<and>
   (\<forall>err e'. commit B e txn k s c = (Inl err, e') \<and> (\<forall>msg. err \<noteq> commit_error.Backend msg) \<longrightarrow> e' = e) \<and>
   (\<forall>err e'. prewrite_batch B e txn s ws = (Inl err, e') \<and>
      (\<forall>msg. err \<noteq> batch_prewrite_error.Backend msg) \<longrightarrow> e' = e) \<and>
   (\<forall>err e'. commit_batch B e txn s c ks = (Inl err, e') \<and>
      (\<forall>msg. err \<noteq> batch_commit_error.Backend msg) \<longrightarrow> e' = e) \<and>
   (\<forall>err e'. abort_batch B e txn s ks = (Inl err, e') \<and>
      (\<forall>msg. err \<noteq> batch_abort_error.Backend msg) \<longrightarrow> e' = e) \<and>
   (\<forall>err e'. apply_direct_batch B e c ws = (Inl err, e') \<and>
      (\<forall>msg. err \<noteq> batch_error.Backend msg) \<longrightarrow> e' = e) \<and>
   (\<forall>err e'. apply_guarded_batch B e c gs ws = (Inl err, e') \<and>
      (\<forall>msg. err \<noteq> batch_error.Backend msg) \<longrightarrow> e' = e)"
  by (intro conjI allI impI; elim conjE;
      (erule (1) prewrite_pure | erule (1) commit_pure | erule (1) prewrite_batch_pure |
       erule (1) commit_batch_pure | erule (1) abort_batch_pure | erule (1) apply_direct_batch_pure |
       erule (1) apply_guarded_batch_pure))

theorem validation_errors_touch_nothing_witness:
  "apply_direct_batch failing_ops failing_new (Timestamp 10)
     [\<lparr>pw_key = [1], pw_value = Some [7]\<rparr>, \<lparr>pw_key = [1], pw_value = Some [8]\<rparr>] =
   (Inl (batch_error.DuplicateKeyInBatch [1]), failing_new)"
proof -
  let ?ws = "[\<lparr>pw_key = [1], pw_value = Some [7]\<rparr>, \<lparr>pw_key = [1], pw_value = Some [8]\<rparr>]"
  obtain r e' where call: "apply_direct_batch failing_ops failing_new (Timestamp 10) ?ws = (r, e')"
    by fastforce
  have "fst (apply_direct_batch failing_ops failing_new (Timestamp 10) ?ws) =
      Inl (batch_error.DuplicateKeyInBatch [1])"
    by code_simp
  with call have r: "r = Inl (batch_error.DuplicateKeyInBatch [1])"
    by simp
  have "e' = failing_new"
    using validation_errors_touch_nothing [of failing_ops failing_new _ _ _ _ "Timestamp 10" ?ws] call r
    by blast
  with call r show ?thesis
    by simp
qed

section \<open>Backends keep their contract\<close>

text \<open>
  C8. The in-memory backend implements the whole storage contract: every read method answers from the
  abstract view, every mutating method is the specified atomic transition of it, no call fails
  except the prefix scans the trait tells it to refuse, and a new backend represents the empty view.
\<close>

theorem in_memory_meets_contract:
  "total_backend in_memory_ops imb_valid imb_view \<and> imb_valid in_memory_new \<and>
   vers (imb_view in_memory_new) = (\<lambda>_. Map.empty) \<and> locks (imb_view in_memory_new) = Map.empty"
  using imb.total_backend_axioms by simp

text \<open>
  C35. On the fault-injecting backend an action of any of the nine kinds that reports an error leaves the committed
  versions and intents as they were, and every action is a step the abstract transition system allows. A collection
  never reports an error there: the backend refuses only batches of writes and transitions of intents.
\<close>

theorem failed_actions_change_nothing:
  assumes "fb_valid e" and "apply_action failing_ops a e = Some (r, e')"
  shows "fb_valid e' \<and> view_step a (fb_view e) (fb_view e') \<and>
    (isl r \<longrightarrow> fb_view e' = fb_view e \<and> (\<nexists>sp. a = Gc sp))"
proof -
  have "\<not> isl r" if "a = Gc sp" for sp
  proof -
    obtain stats e1 where "gc failing_ops e sp schedule_gc_options = Some (Ok stats, e1)"
      using fb_history.gc_exact [OF assms(1) schedule_budget_ok] by blast
    then show ?thesis
      using assms(2) by (auto simp: that forget_err_def)
  qed
  then show ?thesis
    using fb.apply_action_simulates [OF assms] by blast
qed

definition ex_refusing :: failing_backend where
  "ex_refusing = failing_new\<lparr>fail_on_put_batch := True\<rparr>"

lemma ex_refusing_valid [simp]: "fb_valid ex_refusing"
  using failing_new_valid by (simp add: ex_refusing_def fb_valid_def)

theorem failed_actions_change_nothing_witness:
  "\<exists>e'. apply_action failing_ops (ex_write (Timestamp 5) (Some [7])) ex_refusing = Some (Inl (), e') \<and>
     fb_valid e' \<and> fb_view e' = fb_view ex_refusing"
proof -
  obtain r e' where act: "apply_action failing_ops (ex_write (Timestamp 5) (Some [7])) ex_refusing = Some (r, e')"
    using fb.apply_action_returns [OF ex_refusing_valid] by blast
  have "map_option fst (apply_action failing_ops (ex_write (Timestamp 5) (Some [7])) ex_refusing) = Some (Inl ())"
    by code_simp
  with act have "r = Inl ()"
    by simp
  with act show ?thesis
    using failed_actions_change_nothing [OF ex_refusing_valid act] by (simp add: ex_write_def)
qed

text \<open>
  A backend refusal surfaces and changes nothing: on a backend that refuses \<open>commit_intents_batch\<close> neither
  \<open>commit\<close> nor \<open>commit_batch\<close> ever succeeds; each returns the backend's message, or a validation error
  with the state untouched, and in both cases the versions and intents are as before.
\<close>

theorem refused_commit_is_reported:
  assumes "fb_valid e" and "fail_on_commit_intents e"
    and "commit failing_ops e txn k s c = (r1, e1)" and "commit_batch failing_ops e txn s c ks = (r2, e2)"
  shows "(r1 = Inl (commit_error.Backend ''simulated backend failure'') \<or> isl r1 \<and> e1 = e) \<and>
    (r2 = Inl (batch_commit_error.Backend ''simulated backend failure'') \<or> isl r2 \<and> e2 = e) \<and>
    fb_view e1 = fb_view e \<and> fb_view e2 = fb_view e"
proof -
  have refuse: "commit_intents_batch failing_ops e cs rs =
      (Inl ''simulated backend failure'', e\<lparr>commit_intents_calls := commit_intents_calls e + 1\<rparr>)" for cs rs
    using assms(2) by (simp add: failing_ops_def fb_commit_intents_batch_def simulated_failure_def)
  have "r1 = Inl (commit_error.Backend ''simulated backend failure'') \<or> isl r1 \<and> e1 = e"
    using assms(3)
    by (auto simp: commit_def commit_apply_def refuse split: sum.splits option.splits if_splits)
  moreover have "r2 = Inl (batch_commit_error.Backend ''simulated backend failure'') \<or> isl r2 \<and> e2 = e"
    using assms(4) by (auto simp: commit_batch_def refuse split: sum.splits option.splits if_splits)
  moreover have "fb_view e1 = fb_view e"
    using fb.commit_refines [OF assms(1), of txn k s c] assms(3) calculation(1)
    by (auto simp: refines_def spec_commit_def split: option.splits if_splits)
  moreover have "fb_view e2 = fb_view e"
    using fb.commit_batch_refines [OF assms(1), of txn s c ks] assms(4) calculation(2)
    by (auto simp: batch_refines_def)
  ultimately show ?thesis
    by blast
qed

definition ex_refusing_commit :: failing_backend where
  "ex_refusing_commit = failing_new\<lparr>inner := ex_intent, fail_on_commit_intents := True\<rparr>"

theorem refused_commit_is_reported_witness:
  "\<exists>e'. commit failing_ops ex_refusing_commit (TxnId 1) [1] (Timestamp 6) (Timestamp 9) =
     (Inl (commit_error.Backend ''simulated backend failure''), e') \<and> fb_view e' = fb_view ex_refusing_commit"
proof -
  have valid: "fb_valid ex_refusing_commit" "fail_on_commit_intents ex_refusing_commit"
    by (simp_all add: ex_refusing_commit_def fb_valid_def)
  obtain r1 e1 r2 e2 where
    "commit failing_ops ex_refusing_commit (TxnId 1) [1] (Timestamp 6) (Timestamp 9) = (r1, e1)"
    "commit_batch failing_ops ex_refusing_commit (TxnId 1) (Timestamp 6) (Timestamp 9) [[1]] = (r2, e2)"
    by fastforce
  note res = this refused_commit_is_reported [OF valid this]
  have "fst (commit failing_ops ex_refusing_commit (TxnId 1) [1] (Timestamp 6) (Timestamp 9)) =
      Inl (commit_error.Backend ''simulated backend failure'')"
    by code_simp
  then show ?thesis
    using res by simp
qed

section \<open>The operations implement their specification\<close>

text \<open>
  C15. \<open>prewrite\<close> on the in-memory backend: result and new view are those of the specification on every
  branch - locked by another transaction, replay, contradicting replay, write conflict, intent placed.
\<close>

theorem prewrite_implements_spec:
  assumes "imb_valid e" and "prewrite in_memory_ops e txn s k m = (r, e')"
  shows "imb_valid e' \<and> (r, imb_view e') = spec_prewrite (imb_view e) txn s k m"
  using assms by (rule imb.prewrite_exact)

theorem prewrite_implements_spec_witness:
  "spec_prewrite (imb_view ex_intent) (TxnId 2) (Timestamp 7) [1] Delete =
     (Inl (prewrite_error.KeyLocked (TxnId 1)), imb_view ex_intent) \<and>
   fst (prewrite in_memory_ops ex_intent (TxnId 2) (Timestamp 7) [1] Delete) =
     Inl (prewrite_error.KeyLocked (TxnId 1))"
proof -
  obtain r e' where "prewrite in_memory_ops ex_intent (TxnId 2) (Timestamp 7) [1] Delete = (r, e')"
    by fastforce
  then show ?thesis
    using prewrite_implements_spec [of ex_intent "TxnId 2" "Timestamp 7" "[1]" Delete r e']
    by (auto simp: spec_prewrite_def ex_views)
qed

text \<open>
  C16. \<open>commit\<close> on the in-memory backend: result and new view are those of the specification - the seven
  rejections in their order, otherwise the intent becomes a version and disappears in one step.
\<close>

theorem commit_implements_spec:
  assumes "imb_valid e" and "commit in_memory_ops e txn k s c = (r, e')"
  shows "imb_valid e' \<and> (r, imb_view e') = spec_commit (imb_view e) txn k s c"
  using assms by (rule imb.commit_exact)

theorem commit_implements_spec_witness:
  "\<exists>e'. commit in_memory_ops ex_intent (TxnId 1) [1] (Timestamp 6) (Timestamp 9) = (Ok (), e') \<and>
     imb_view e' = commit_view (imb_view ex_intent) (Timestamp 9) {[1]}"
proof -
  obtain r e' where call: "commit in_memory_ops ex_intent (TxnId 1) [1] (Timestamp 6) (Timestamp 9) = (r, e')"
    by fastforce
  have "spec_commit (imb_view ex_intent) (TxnId 1) [1] (Timestamp 6) (Timestamp 9) =
      (Ok (), commit_view (imb_view ex_intent) (Timestamp 9) {[1]})"
    by (simp add: spec_commit_def ex_views above_all_def)
  then show ?thesis
    using commit_implements_spec [OF ex_valid(2) call] call by simp
qed

text \<open>
  \<open>abort\<close> on the in-memory backend always succeeds; it removes the intent of exactly this key,
  transaction and start timestamp and nothing else, so repeating it changes nothing.
\<close>

theorem abort_implements_spec:
  assumes "imb_valid e" and "abort in_memory_ops e txn k s = (r, e')"
  shows "imb_valid e' \<and> r = Ok () \<and> imb_view e' = spec_abort (imb_view e) txn k s \<and>
    spec_abort (imb_view e') txn k s = imb_view e'"
  using imb.abort_exact [OF assms] by (auto simp: spec_abort_def owns_def)

theorem abort_implements_spec_witness:
  "\<exists>e'. abort in_memory_ops ex_intent (TxnId 1) [1] (Timestamp 6) = (Ok (), e') \<and>
     locks (imb_view e') [1] = None"
proof -
  obtain r e' where call: "abort in_memory_ops ex_intent (TxnId 1) [1] (Timestamp 6) = (r, e')"
    by fastforce
  show ?thesis
    using abort_implements_spec [OF ex_valid(2) call] call
    by (auto simp: spec_abort_def owns_def ex_views)
qed

text \<open>
  C17. \<open>prewrite_batch\<close> is all or nothing: it is accepted exactly for a non-empty batch of distinct keys that
  are all free and without newer versions (then every intent is placed), or that all carry this very write already
  (then nothing changes); every rejection leaves the view and names a condition that holds of it.
\<close>

theorem prewrite_batch_all_or_nothing:
  assumes "imb_valid e"
  shows "batch_exact imb_valid imb_view e (prewrite_batch in_memory_ops e txn s ws)
    (prewrite_batch_fresh (imb_view e) s ws \<or> prewrite_batch_replay (imb_view e) txn s ws)
    (if prewrite_batch_fresh (imb_view e) s ws then prewrite_view (imb_view e) txn s ws else imb_view e)
    (prewrite_batch_reason (imb_view e) txn s ws)"
  using assms by (rule imb.prewrite_batch_exact)

theorem prewrite_batch_all_or_nothing_witness:
  "\<exists>err. fst (prewrite_batch in_memory_ops ex_intent (TxnId 2) (Timestamp 7)
     [\<lparr>pw_key = [2], pw_value = None\<rparr>, \<lparr>pw_key = [1], pw_value = Some [3]\<rparr>]) = Inl err \<and>
   imb_view (snd (prewrite_batch in_memory_ops ex_intent (TxnId 2) (Timestamp 7)
     [\<lparr>pw_key = [2], pw_value = None\<rparr>, \<lparr>pw_key = [1], pw_value = Some [3]\<rparr>])) = imb_view ex_intent"
proof -
  let ?ws = "[\<lparr>pw_key = [2], pw_value = None\<rparr>, \<lparr>pw_key = [1], pw_value = Some [3]\<rparr>]"
  have "\<not> (prewrite_batch_fresh (imb_view ex_intent) (Timestamp 7) ?ws \<or>
      prewrite_batch_replay (imb_view ex_intent) (TxnId 2) (Timestamp 7) ?ws)"
    by (simp add: prewrite_batch_fresh_def prewrite_batch_replay_def write_replays_def owns_def ex_views)
  then show ?thesis
    using prewrite_batch_all_or_nothing [OF ex_valid(2), of "TxnId 2" "Timestamp 7" ?ws]
    by (auto simp: batch_exact_def split: prod.splits)
qed

text \<open>
  C18. \<open>commit_batch\<close> is all or nothing: it is accepted exactly if the keys are non-empty and distinct, the commit
  timestamp is above the start timestamp and above every version, and every key carries this transaction's intent; then
  all intents become versions together. Every rejection leaves the view and names a condition that holds of it.
\<close>

theorem commit_batch_all_or_nothing:
  assumes "imb_valid e"
  shows "batch_exact imb_valid imb_view e (commit_batch in_memory_ops e txn s c ks)
    (commit_batch_ok (imb_view e) txn s c ks) (commit_view (imb_view e) c (set ks))
    (commit_batch_reason (imb_view e) txn s c ks)"
  using assms by (rule imb.commit_batch_exact)

theorem commit_batch_all_or_nothing_witness:
  "fst (commit_batch in_memory_ops ex_intent (TxnId 1) (Timestamp 6) (Timestamp 9) [[1]]) = Ok () \<and>
   imb_view (snd (commit_batch in_memory_ops ex_intent (TxnId 1) (Timestamp 6) (Timestamp 9) [[1]])) =
     commit_view (imb_view ex_intent) (Timestamp 9) {[1]}"
proof -
  have "commit_batch_ok (imb_view ex_intent) (TxnId 1) (Timestamp 6) (Timestamp 9) [[1]]"
    by (simp add: commit_batch_ok_def owns_def ex_views above_all_def)
  then show ?thesis
    using commit_batch_all_or_nothing [OF ex_valid(2), of "TxnId 1" "Timestamp 6" "Timestamp 9" "[[1]]"]
    by (auto simp: batch_exact_def split: prod.splits)
qed

text \<open>
  C19. \<open>abort_batch\<close> fails only on a duplicate key; otherwise it removes the intents this transaction placed at this
  start timestamp on the listed keys and keeps all others.
\<close>

theorem abort_batch_all_or_nothing:
  assumes "imb_valid e"
  shows "batch_exact imb_valid imb_view e (abort_batch in_memory_ops e txn s ks)
    (distinct ks) (abort_view (imb_view e) txn s (set ks))
    (\<lambda>err. \<exists>k. err = batch_abort_error.DuplicateKeyInBatch k \<and> 1 < count_list ks k)"
  using assms by (rule imb.abort_batch_exact)

theorem abort_batch_all_or_nothing_witness:
  "fst (abort_batch in_memory_ops ex_intent (TxnId 1) (Timestamp 6) [[1], [2]]) = Ok () \<and>
   locks (imb_view (snd (abort_batch in_memory_ops ex_intent (TxnId 1) (Timestamp 6) [[1], [2]]))) [1] = None"
  using abort_batch_all_or_nothing [OF ex_valid(2), of "TxnId 1" "Timestamp 6" "[[1], [2]]"]
  by (auto simp: batch_exact_def abort_view_def owns_def ex_views split: prod.splits)

text \<open>
  C20. \<open>apply_direct_batch\<close> is all or nothing: accepted exactly for a non-empty batch of distinct unlocked keys whose
  versions are all older than the commit timestamp, then every write becomes a version; every rejection leaves the view.
\<close>

theorem direct_batch_all_or_nothing:
  assumes "imb_valid e"
  shows "batch_exact imb_valid imb_view e (apply_direct_batch in_memory_ops e c ws)
    (writes_ok (imb_view e) c ws) (write_view (imb_view e) c ws)
    (batch_error_reason (imb_view e) c [] ws)"
  using assms by (rule imb.apply_direct_batch_exact)

theorem direct_batch_all_or_nothing_witness:
  "imb_view (snd (apply_direct_batch in_memory_ops ex_put (Timestamp 5)
     [\<lparr>pw_key = [2], pw_value = None\<rparr>, \<lparr>pw_key = [1], pw_value = Some [3]\<rparr>])) = imb_view ex_put"
proof -
  let ?ws = "[\<lparr>pw_key = [2], pw_value = None\<rparr>, \<lparr>pw_key = [1], pw_value = Some [3]\<rparr>]"
  have "\<not> writes_ok (imb_view ex_put) (Timestamp 5) ?ws"
    by (simp add: writes_ok_def above_all_def ex_views)
  then show ?thesis
    using direct_batch_all_or_nothing [OF ex_valid(1), of "Timestamp 5" ?ws]
    by (auto simp: batch_exact_def split: prod.splits)
qed

text \<open>
  C21. \<open>apply_guarded_batch\<close> is all or nothing: accepted exactly if the writes are acceptable as a direct batch and
  there are guards that all hold - read before the commit timestamp, no intent, nothing newer than the
  read, the expected version or value still visible; every rejection leaves the view and names what failed.
\<close>

theorem guarded_batch_all_or_nothing:
  assumes "imb_valid e"
  shows "batch_exact imb_valid imb_view e (apply_guarded_batch in_memory_ops e c gs ws)
    (writes_ok (imb_view e) c ws \<and> gs \<noteq> [] \<and> (\<forall>g\<in>set gs. guard_holds (imb_view e) c g))
    (write_view (imb_view e) c ws) (batch_error_reason (imb_view e) c gs ws)"
  using assms by (rule imb.apply_guarded_batch_exact)

theorem guarded_batch_all_or_nothing_witness:
  "fst (apply_guarded_batch in_memory_ops ex_put (Timestamp 9)
     [ExpectedVersion [1] (Timestamp 6) (Some (Timestamp 5))] [\<lparr>pw_key = [2], pw_value = Some [3]\<rparr>]) = Ok ()"
proof -
  let ?ws = "[\<lparr>pw_key = [2], pw_value = Some [3]\<rparr>]" and ?g = "ExpectedVersion [1] (Timestamp 6) (Some (Timestamp 5))"
  have "visible (vers (imb_view ex_put) [1]) (Timestamp 6) = Some (Timestamp 5, Some [7])"
    by (subst visible_Some_iff) (simp_all add: ex_views)
  then have "writes_ok (imb_view ex_put) (Timestamp 9) ?ws" "guard_holds (imb_view ex_put) (Timestamp 9) ?g"
    by (simp_all add: writes_ok_def above_all_def guard_holds_def no_newer_def ex_views)
  then show ?thesis
    using guarded_batch_all_or_nothing [OF ex_valid(1), of "Timestamp 9" "[?g]" ?ws]
    by (simp add: batch_exact_def split: prod.splits)
qed

end
