(* ===== verification/Read_Properties.thy ===== *)
theory Read_Properties
  imports Mvcc_Examples
begin

text \<open>
  What clients observe on the in-memory backend: which version a read returns, own writes, when the
  effects of commits and guarded batches become visible, write conflicts, key scans.
\<close>

section \<open>Reads\<close>

lemma read_at_ts [simp]:
  "imb_valid e \<Longrightarrow> read in_memory_ops e k ts = Ok (visible_value (vers (imb_view e) k) ts)"
  "imb_valid e \<Longrightarrow> read_with_version in_memory_ops e k ts = Ok (visible (vers (imb_view e) k) ts)"
  by (rule imb.read_eq imb.read_with_version_eq, assumption)+

lemma imb_finite [simp]: "imb_valid e \<Longrightarrow> finite (dom (vers (imb_view e) k))"
  by (rule imb_reads.finite_vers)

text \<open>
  C38. A snapshot read returns the version with the greatest commit timestamp at or below the read timestamp, and
  nothing exactly if every version is newer; \<open>read\<close> is its value, with a tombstone read as absent.
\<close>

theorem read_sees_newest_version:
  assumes "imb_valid e"
  shows "(read_with_version in_memory_ops e k ts = Ok (Some (t, x)) \<longleftrightarrow>
      vers (imb_view e) k t = Some x \<and> t \<le> ts \<and> (\<forall>t'\<in>dom (vers (imb_view e) k). t' \<le> ts \<longrightarrow> t' \<le> t)) \<and>
    (read_with_version in_memory_ops e k ts = Ok None \<longleftrightarrow> (\<forall>t'\<in>dom (vers (imb_view e) k). ts < t')) \<and>
    (\<exists>r. read_with_version in_memory_ops e k ts = Ok r \<and> read in_memory_ops e k ts = Ok (Option.bind r snd))"
  using assms by (simp add: visible_Some_iff visible_None_iff visible_value_def)

theorem read_sees_newest_version_witness:
  "read_with_version in_memory_ops ex_updated [1] (Timestamp 7) = Ok (Some (Timestamp 5, Some [7]))"
  using read_sees_newest_version [OF ex_valid(4), of "[1]" "Timestamp 7" "Timestamp 5" "Some [7]"]
  by (simp add: ex_views)

text \<open>
  \<open>read_own_write\<close> returns the pending mutation of exactly this transaction and start timestamp, and otherwise
  what an ordinary read returns: nobody sees the intent of another transaction.
\<close>

theorem read_own_write_sees_intent:
  assumes "imb_valid e"
  shows "read_own_write in_memory_ops e k txn s ts =
    (if owns (imb_view e) k txn s then Ok (mutation_value (intent_mutation (the (locks (imb_view e) k))))
     else read in_memory_ops e k ts)"
  using assms imb.read_own_write_eq [OF assms] by simp

theorem read_own_write_sees_intent_witness:
  "read_own_write in_memory_ops ex_intent [1] (TxnId 1) (Timestamp 6) (Timestamp 6) = Ok (Some [8]) \<and>
   read_own_write in_memory_ops ex_intent [1] (TxnId 2) (Timestamp 6) (Timestamp 6) =
     read in_memory_ops ex_intent [1] (Timestamp 6)"
  using read_own_write_sees_intent [OF ex_valid(2), of "[1]" "TxnId 1" "Timestamp 6" "Timestamp 6"]
    read_own_write_sees_intent [OF ex_valid(2), of "[1]" "TxnId 2" "Timestamp 6" "Timestamp 6"]
  by (simp add: owns_def ex_views)

section \<open>Visibility of commits\<close>

lemma commit_view_visible_value:
  assumes "view_ok v" and "commit_batch_ok v txn s c ks"
  shows "visible_value (vers (commit_view v c (set ks)) k) ts =
    (if k \<in> set ks \<and> c \<le> ts then mutation_value (intent_mutation (the (locks v k)))
     else visible_value (vers v k) ts)"
proof (cases "k \<in> set ks")
  case True
  then have "above_all (vers v k) c"
    using assms(2) by (simp add: commit_batch_ok_def)
  then show ?thesis
    using True assms(1) visible_update [of "vers v k" c _ ts]
    by (simp add: commit_view_def visible_value_def above_all_def)
qed (simp add: commit_view_def)

text \<open>
  C39. The writes of a committed batch become visible together: after \<open>commit_batch\<close> succeeded at \<open>c\<close>, every reader at or
  above \<open>c\<close> sees on each committed key what the transaction had written, every other read is as before.
\<close>

theorem commit_batch_visible_at_once:
  assumes "imb_valid e" and "commit_batch in_memory_ops e txn s c ks = (Ok (), e')"
  shows "read in_memory_ops e' k ts =
    (if k \<in> set ks \<and> c \<le> ts then read_own_write in_memory_ops e k txn s ts
     else read in_memory_ops e k ts)"
proof -
  have ok: "commit_batch_ok (imb_view e) txn s c ks" and e': "imb_valid e'"
    and v': "imb_view e' = commit_view (imb_view e) c (set ks)"
    using imb.commit_batch_exact [OF assms(1), of txn s c ks] assms(2)
    by (auto simp: batch_exact_def split: if_splits)
  have "owns (imb_view e) k txn s" if "k \<in> set ks"
    using ok that by (simp add: commit_batch_ok_def)
  then show ?thesis
    using assms(1) e' commit_view_visible_value [OF imb_reads.valid_view_ok [OF assms(1)] ok]
    by (simp add: v' imb.read_own_write_eq)
qed

theorem commit_batch_visible_at_once_witness:
  "\<exists>e'. commit_batch in_memory_ops ex_intent (TxnId 1) (Timestamp 6) (Timestamp 9) [[1]] = (Ok (), e') \<and>
     read in_memory_ops e' [1] (Timestamp 9) =
       read_own_write in_memory_ops ex_intent [1] (TxnId 1) (Timestamp 6) (Timestamp 9)"
proof -
  obtain r e' where call: "commit_batch in_memory_ops ex_intent (TxnId 1) (Timestamp 6) (Timestamp 9) [[1]] = (r, e')"
    by fastforce
  have "fst (commit_batch in_memory_ops ex_intent (TxnId 1) (Timestamp 6) (Timestamp 9) [[1]]) = Ok ()"
    by code_simp
  with call have call': "commit_batch in_memory_ops ex_intent (TxnId 1) (Timestamp 6) (Timestamp 9) [[1]] = (Ok (), e')"
    by simp
  show ?thesis
    using call' commit_batch_visible_at_once [OF ex_valid(2) call', of "[1]" "Timestamp 9"] by simp
qed

text \<open>
  A guarded batch commits on current reads: if it succeeded, every guard's read timestamp lies below the commit
  timestamp, a read of the guarded key at any timestamp from the guard's on returns the same version as at the guard's,
  and that is the expected one.
\<close>

theorem guarded_batch_reads_current:
  assumes "imb_valid e" and "apply_guarded_batch in_memory_ops e c gs ws = (Ok (), e')" and "g \<in> set gs"
    and "guard_read_ts g \<le> ts"
  shows "guard_read_ts g < c \<and> guard_matches (imb_view e) g \<and>
    read_with_version in_memory_ops e (guard_key g) ts =
      read_with_version in_memory_ops e (guard_key g) (guard_read_ts g)"
proof -
  let ?h = "vers (imb_view e) (guard_key g)"
  have "guard_holds (imb_view e) c g"
    using imb.apply_guarded_batch_exact [OF assms(1), of c gs ws] assms(2,3)
    by (auto simp: batch_exact_def split: if_splits)
  then have g: "guard_read_ts g < c" "guard_matches (imb_view e) g" "no_newer ?h (guard_read_ts g)"
    by (auto simp: guard_holds_def)
  have "visible ?h ts = visible ?h (guard_read_ts g)"
    using g(3) assms(4) by (rule no_newer_visible)
  then show ?thesis
    using g assms(1) by simp
qed

theorem guarded_batch_reads_current_witness:
  "read_with_version in_memory_ops ex_put [1] (Timestamp 8) = read_with_version in_memory_ops ex_put [1] (Timestamp 6)"
proof -
  let ?ws = "[\<lparr>pw_key = [2], pw_value = Some [3]\<rparr>]" and ?g = "ExpectedVersion [1] (Timestamp 6) (Some (Timestamp 5))"
  obtain r e' where call: "apply_guarded_batch in_memory_ops ex_put (Timestamp 9) [?g] ?ws = (r, e')"
    by fastforce
  have "fst (apply_guarded_batch in_memory_ops ex_put (Timestamp 9) [?g] ?ws) = Ok ()"
    by code_simp
  with call have call': "apply_guarded_batch in_memory_ops ex_put (Timestamp 9) [?g] ?ws = (Ok (), e')"
    by simp
  show ?thesis
    using guarded_batch_reads_current [OF ex_valid(1) call', of ?g "Timestamp 8"] by simp
qed

section \<open>Conflicts\<close>

text \<open>
  C7. The first committer wins: once a transaction has committed a key at \<open>c\<close>, a transaction that started
  before \<open>c\<close> cannot prewrite that key any more; it gets a write conflict and changes nothing.
\<close>

theorem first_committer_wins:
  assumes "imb_valid e" and "commit in_memory_ops e txn k s c = (Ok (), e')" and "s' < c"
  shows "prewrite in_memory_ops e' txn' s' k m = (Inl prewrite_error.WriteConflict, e')"
proof -
  have e': "imb_valid e'" and "(Ok (), imb_view e') = spec_commit (imb_view e) txn k s c"
    using imb.commit_exact [OF assms(1,2)] by auto
  then have v': "imb_view e' = commit_view (imb_view e) c {k}" and above: "above_all (vers (imb_view e) k) c"
    by (auto simp: spec_commit_def split: option.splits if_splits)
  then have "locks (imb_view e') k = None" "newest_ts (vers (imb_view e') k) = Some c"
    using newest_ts_update [of "vers (imb_view e) k" c] imb_reads.finite_vers [OF assms(1)]
    by (auto simp: commit_view_def above_all_def)
  then show ?thesis
    using assms(3)
    by (simp add: prewrite_def imb.get_intent_eq [OF e'] imb.get_latest_commit_ts_eq [OF e']
        del: in_memory_ops_sel)
qed

theorem first_committer_wins_witness:
  "\<exists>e'. commit in_memory_ops ex_intent (TxnId 1) [1] (Timestamp 6) (Timestamp 9) = (Ok (), e') \<and>
     prewrite in_memory_ops e' (TxnId 2) (Timestamp 7) [1] Delete = (Inl prewrite_error.WriteConflict, e')"
proof -
  obtain r e' where call: "commit in_memory_ops ex_intent (TxnId 1) [1] (Timestamp 6) (Timestamp 9) = (r, e')"
    by fastforce
  have "fst (commit in_memory_ops ex_intent (TxnId 1) [1] (Timestamp 6) (Timestamp 9)) = Ok ()"
    by code_simp
  with call have call': "commit in_memory_ops ex_intent (TxnId 1) [1] (Timestamp 6) (Timestamp 9) = (Ok (), e')"
    by simp
  show ?thesis
    using call' first_committer_wins [OF ex_valid(2) call', of "Timestamp 7" "TxnId 2" Delete] by simp
qed

section \<open>Batches of one\<close>

text \<open>
  A batch of one key is the single-key operation: on the in-memory backend \<open>prewrite_batch\<close> of one write and
  \<open>prewrite\<close> succeed together and leave the same view, and so do \<open>commit_batch\<close> of one key and \<open>commit\<close>.
\<close>

theorem singleton_batch_agrees:
  assumes "imb_valid e"
    and "prewrite in_memory_ops e txn s (pw_key w) (write_mutation w) = (r1, e1)"
    and "prewrite_batch in_memory_ops e txn s [w] = (r2, e2)"
    and "commit in_memory_ops e txn k s c = (r3, e3)"
    and "commit_batch in_memory_ops e txn s c [k] = (r4, e4)"
  shows "isl r1 = isl r2 \<and> imb_view e1 = imb_view e2 \<and> isl r3 = isl r4 \<and> imb_view e3 = imb_view e4"
proof -
  let ?v = "imb_view e"
  have r1: "(r1, imb_view e1) = spec_prewrite ?v txn s (pw_key w) (write_mutation w)"
    using imb.prewrite_exact [OF assms(1,2)] by simp
  have b2: "batch_exact imb_valid imb_view e (r2, e2)
    (prewrite_batch_fresh ?v s [w] \<or> prewrite_batch_replay ?v txn s [w])
    (if prewrite_batch_fresh ?v s [w] then prewrite_view ?v txn s [w] else ?v)
    (prewrite_batch_reason ?v txn s [w])"
    using imb.prewrite_batch_exact [OF assms(1), of txn s "[w]"] assms(3) by simp
  have "isl r1 = isl r2 \<and> imb_view e1 = imb_view e2"
  proof (cases "locks ?v (pw_key w)")
    case None
    then show ?thesis
      using r1 b2
      by (auto simp: batch_exact_def spec_prewrite_def prewrite_batch_fresh_def prewrite_batch_replay_def
          write_replays_def owns_def prewrite_view_def v_put_intent_def write_intent_def split: if_splits)
  next
    case (Some i)
    then show ?thesis
      using r1 b2
      by (auto simp: batch_exact_def spec_prewrite_def prewrite_batch_fresh_def prewrite_batch_replay_def
          write_replays_def owns_def split: if_splits)
  qed
  moreover have "(r3, imb_view e3) = spec_commit ?v txn k s c"
    using imb.commit_exact [OF assms(1,4)] by simp
  then have "isl r3 = isl r4 \<and> imb_view e3 = imb_view e4"
    using imb.commit_batch_exact [OF assms(1), of txn s c "[k]"] assms(5)
    by (cases "locks ?v k")
      (auto simp: batch_exact_def spec_commit_def commit_batch_ok_def owns_def not_le not_less
        dest: above_all_notin split: if_splits)
  ultimately show ?thesis
    by blast
qed

theorem singleton_batch_agrees_witness:
  "isl (fst (prewrite in_memory_ops ex_intent (TxnId 2) (Timestamp 7) [1] (Put [3]))) =
   isl (fst (prewrite_batch in_memory_ops ex_intent (TxnId 2) (Timestamp 7) [\<lparr>pw_key = [1], pw_value = Some [3]\<rparr>]))"
proof -
  let ?w = "\<lparr>pw_key = [1], pw_value = Some [3]\<rparr>"
  obtain r1 e1 r2 e2 r3 e3 r4 e4 where
    "prewrite in_memory_ops ex_intent (TxnId 2) (Timestamp 7) (pw_key ?w) (write_mutation ?w) = (r1, e1)"
    "prewrite_batch in_memory_ops ex_intent (TxnId 2) (Timestamp 7) [?w] = (r2, e2)"
    "commit in_memory_ops ex_intent (TxnId 2) [1] (Timestamp 7) (Timestamp 9) = (r3, e3)"
    "commit_batch in_memory_ops ex_intent (TxnId 2) (Timestamp 7) (Timestamp 9) [[1]] = (r4, e4)"
    by fastforce
  then show ?thesis
    using singleton_batch_agrees [OF ex_valid(2), of "TxnId 2" "Timestamp 7" ?w r1 e1 r2 e2 "[1]" "Timestamp 9" r3 e3 r4 e4]
    by (simp add: write_mutation_def)
qed

section \<open>Key scans\<close>

lemma sorted_list_of_set_filter:
  "finite A \<Longrightarrow> filter P (sorted_list_of_set A) = sorted_list_of_set {x \<in> A. P x}"
  by (rule strict_sorted_eq_sorted_list_of_set) (simp_all add: strict_sorted_filter)

text \<open>
  \<open>keys_from\<close> returns the first \<open>limit\<close> keys, in order, among the keys with a version or an intent that are at or
  above the start key; a limit of zero gives the empty page.
\<close>

theorem keys_from_pages:
  assumes "imb_valid e"
  shows "imb_keys_from e start limit =
    Ok (take (unat limit) (sorted_list_of_set {k \<in> view_keys (imb_view e). from_key start k}))"
proof -
  have "finite (view_keys (imb_view e))"
    using imb_reads.valid_view_ok [OF assms] by (simp add: view_ok_def)
  then show ?thesis
    using keys_in_range_facts(3) [OF imb_reads.valid_view_ok [OF assms], of start "unat limit"]
    by (simp add: imb_keys_from_eq [OF assms] keys_in_range_def sorted_list_of_set_filter)
qed

theorem keys_from_pages_witness:
  "imb_keys_from ex_intent (Some [1]) 1 = Ok [[1]]"
proof -
  have "{k \<in> view_keys (imb_view ex_intent). from_key (Some [1]) k} = {[1]}"
    by (auto simp: view_keys_def committed_keys_def ex_views from_key_def split: if_splits)
  then show ?thesis
    using keys_from_pages [OF ex_valid(2), of "Some [1]" 1] by simp
qed

text \<open>
  \<open>keys_from_prefix\<close> rejects an empty prefix and a start key outside the prefix; otherwise, and always for limit zero,
  it returns the first \<open>limit\<close> committed keys with the prefix at or above the start key, in order.
\<close>

theorem keys_from_prefix_pages:
  assumes "imb_valid e"
  shows "imb_keys_from_prefix e p start limit =
    (if limit \<noteq> 0 \<and> p = [] then Err ''Prefix cannot be empty''
     else if limit \<noteq> 0 \<and> (\<exists>s. start = Some s \<and> \<not> prefix p s) then Err ''Start cursor must start with the prefix''
     else Ok (take (unat limit)
       (sorted_list_of_set {k \<in> committed_keys (imb_view e). prefix p k \<and> from_key start k})))"
proof (cases "imb_keys_from_prefix e p start limit")
  case (Inl msg)
  then show ?thesis
    by (auto simp: imb_keys_from_prefix_def split: if_splits option.splits)
next
  case (Inr ks)
  have "finite (committed_keys (imb_view e))"
    using imb_reads.valid_view_ok [OF assms] by (simp add: view_ok_def view_keys_def)
  then have "ks = take (unat limit)
      (sorted_list_of_set {k \<in> committed_keys (imb_view e). prefix p k \<and> from_key start k})"
    using imb_keys_from_prefix_eq [OF assms Inr]
    by (simp add: v_keys_from_prefix_def sorted_list_of_set_filter from_key_def)
  then show ?thesis
    using Inr by (auto simp: imb_keys_from_prefix_def split: if_splits option.splits)
qed

theorem keys_from_prefix_pages_witness:
  "imb_keys_from_prefix ex_put [1] None 3 = Ok [[1]]"
proof -
  have "{k \<in> committed_keys (imb_view ex_put). prefix [1] k \<and> from_key None k} = {[1]}"
    by (auto simp: committed_keys_def ex_views from_key_def split: if_splits)
  then show ?thesis
    using keys_from_prefix_pages [OF ex_valid(1), of "[1]" None 3] by simp
qed

end
