(* ===== verification/Delegation.thy ===== *)
theory Delegation
  imports Mvcc_Schedule
begin

text \<open>
  Backends that delegate to another one and keep book of the calls. Every method answers as the inner
  backend does and leaves the inner backend in the state the delegated call leaves; what else the
  wrapper stores does not matter. Such a wrapper keeps the contract of the backend inside it.
\<close>

text \<open>The outcome of a mutating call, seen on the inner backend.\<close>

definition inner_outcome :: "('w \<Rightarrow> 'b) \<Rightarrow> 'r \<times> 'w \<Rightarrow> 'r \<times> 'b" where
  "inner_outcome inner out = (fst out, inner (snd out))"

lemma inner_outcome_atomic:
  "atomic_step (\<lambda>w. valid (inner w)) (\<lambda>w. view (inner w)) w out v' \<longleftrightarrow>
   atomic_step valid view (inner w) (inner_outcome inner out) v'"
  by (simp add: atomic_step_def inner_outcome_def split: prod.splits)

locale delegating_backend = total_backend B valid view
  for B :: "'b backend" and valid :: "'b \<Rightarrow> bool" and view :: "'b \<Rightarrow> mvcc_view" +
  fixes W :: "'w backend" and inner :: "'w \<Rightarrow> 'b"
  assumes same_reads:
      "get_committed_versions W w k = get_committed_versions B (inner w) k"
      "get_latest_committed W w k = get_latest_committed B (inner w) k"
      "get_visible_committed W w k ts = get_visible_committed B (inner w) k ts"
      "get_latest_commit_ts W w k = get_latest_commit_ts B (inner w) k"
      "get_intent W w k = get_intent B (inner w) k"
      "all_keys W w = all_keys B (inner w)"
      "keys_from W w start n = keys_from B (inner w) start n"
      "keys_from_prefix W w p start n = keys_from_prefix B (inner w) p start n"
      "get_committed_timestamps_before W w k ts n = get_committed_timestamps_before B (inner w) k ts n"
    and same_writes:
      "inner_outcome inner (put_intent W w i) = put_intent B (inner w) i"
      "inner_outcome inner (remove_intent W w k txn s) = remove_intent B (inner w) k txn s"
      "inner_outcome inner (put_committed W w c) = put_committed B (inner w) c"
      "inner_outcome inner (put_committed_batch W w cs) = put_committed_batch B (inner w) cs"
      "inner_outcome inner (remove_committed_version W w k t) = remove_committed_version B (inner w) k t"
      "inner_outcome inner (put_intents_batch W w is) = put_intents_batch B (inner w) is"
      "inner_outcome inner (commit_intents_batch W w cs rs) = commit_intents_batch B (inner w) cs rs"
      "inner_outcome inner (remove_intents_batch W w rs) = remove_intents_batch B (inner w) rs"
      "inner_outcome inner (collapse_tombstone W w k t tss) = collapse_tombstone B (inner w) k t tss"
begin

lemma outer_result:
  "fst (put_intent W w i) = fst (put_intent B (inner w) i)"
  "fst (remove_intent W w k txn s) = fst (remove_intent B (inner w) k txn s)"
  "fst (put_committed W w c) = fst (put_committed B (inner w) c)"
  "fst (put_committed_batch W w cs) = fst (put_committed_batch B (inner w) cs)"
  "fst (remove_committed_version W w k t) = fst (remove_committed_version B (inner w) k t)"
  "fst (put_intents_batch W w is) = fst (put_intents_batch B (inner w) is)"
  "fst (commit_intents_batch W w cs rs) = fst (commit_intents_batch B (inner w) cs rs)"
  "fst (remove_intents_batch W w rs) = fst (remove_intents_batch B (inner w) rs)"
  "fst (collapse_tombstone W w k t tss) = fst (collapse_tombstone B (inner w) k t tss)"
  by (simp_all add: same_writes [symmetric] inner_outcome_def)

lemma outer_reads: "backend_reads W (\<lambda>w. valid (inner w)) (\<lambda>w. view (inner w))"
  by unfold_locales
    (use valid_view_ok get_committed_versions_law get_latest_committed_law get_visible_committed_law
       get_latest_commit_ts_law get_intent_law all_keys_law keys_from_law keys_from_prefix_law
       get_committed_timestamps_before_law in \<open>simp_all only: same_reads\<close>)

lemma outer_contract: "backend_contract W (\<lambda>w. valid (inner w)) (\<lambda>w. view (inner w))"
proof (intro backend_contract.intro outer_reads backend_contract_axioms.intro)
qed (simp_all only: inner_outcome_atomic same_writes outer_result put_intent_law remove_intent_law
      remove_intent_result put_committed_law put_committed_batch_law remove_committed_version_law
      put_intents_batch_law commit_intents_batch_law remove_intents_batch_law collapse_tombstone_law)

lemma outer_store: "committed_store W (\<lambda>w. valid (inner w)) (\<lambda>w. view (inner w))"
proof (intro committed_store.intro outer_contract committed_store_axioms.intro)
qed (simp_all add: same_reads outer_result get_committed_versions_total get_latest_committed_total
      get_visible_committed_total get_latest_commit_ts_total all_keys_total keys_from_total
      keys_from_prefix_total keys_from_prefix_refuses get_committed_timestamps_before_total
      put_committed_total put_committed_batch_total remove_committed_version_total collapse_tombstone_total)

end

sublocale delegating_backend \<subseteq> outer: total_backend W "\<lambda>w. valid (inner w)" "\<lambda>w. view (inner w)"
proof (intro total_backend.intro outer_store total_backend_axioms.intro)
qed (simp_all add: same_reads outer_result get_intent_total put_intent_total remove_intent_total
      put_intents_batch_total commit_intents_batch_total remove_intents_batch_total)

end
