(* ===== verification/Spy_Backend.thy ===== *)
theory Spy_Backend
  imports In_Memory_Backend Delegation
begin

text \<open>
  The recording backend of the garbage collection tests: an in-memory backend that notes every
  \<open>remove_committed_version\<close> and \<open>collapse_tombstone\<close> it is asked for. What a collection step asks of
  the store can be read off its two logs: single removals name obsolete versions only, and a tombstone
  is collapsed together with the complete older history of its key, as the trait demands of its callers.
\<close>

section \<open>The backend\<close>

type_synonym collapse_tombstone_calls = "(key \<times> timestamp \<times> timestamp list) list"
type_synonym remove_committed_version_calls = "(key \<times> timestamp) list"

record spy_backend =
  spy_inner :: in_memory
  collapse_calls :: collapse_tombstone_calls
  remove_calls :: remove_committed_version_calls

definition spy_new :: spy_backend where
  "spy_new = \<lparr>spy_inner = in_memory_new, collapse_calls = [], remove_calls = []\<rparr>"

definition on_spied :: "(in_memory \<Rightarrow> 'r \<times> in_memory) \<Rightarrow> spy_backend \<Rightarrow> 'r \<times> spy_backend" where
  "on_spied f b = (case f (spy_inner b) of (r, i) \<Rightarrow> (r, b\<lparr>spy_inner := i\<rparr>))"

definition spy_remove_committed_version ::
  "spy_backend \<Rightarrow> key \<Rightarrow> timestamp \<Rightarrow> (string + unit) \<times> spy_backend" where
  "spy_remove_committed_version b key commit_ts =
     on_spied (\<lambda>i. imb_remove_committed_version i key commit_ts)
       (b\<lparr>remove_calls := remove_calls b @ [(key, commit_ts)]\<rparr>)"

definition spy_collapse_tombstone ::
  "spy_backend \<Rightarrow> key \<Rightarrow> timestamp \<Rightarrow> timestamp list \<Rightarrow> (string + unit) \<times> spy_backend" where
  "spy_collapse_tombstone b key tombstone_ts older_ts =
     on_spied (\<lambda>i. imb_collapse_tombstone i key tombstone_ts older_ts)
       (b\<lparr>collapse_calls := collapse_calls b @ [(key, tombstone_ts, older_ts)]\<rparr>)"

definition spy_ops :: "spy_backend backend" where
  "spy_ops =
     \<lparr>get_committed_versions = \<lambda>b. imb_get_committed_versions (spy_inner b),
      get_latest_committed = \<lambda>b. imb_get_latest_committed (spy_inner b),
      get_visible_committed = \<lambda>b. imb_get_visible_committed (spy_inner b),
      get_latest_commit_ts = \<lambda>b. imb_get_latest_commit_ts (spy_inner b),
      get_intent = \<lambda>b. imb_get_intent (spy_inner b),
      put_intent = \<lambda>b i. on_spied (\<lambda>m. imb_put_intent m i) b,
      remove_intent = \<lambda>b k txn s. on_spied (\<lambda>m. imb_remove_intent m k txn s) b,
      put_committed = \<lambda>b c. on_spied (\<lambda>m. imb_put_committed m c) b,
      put_committed_batch = \<lambda>b cs. on_spied (\<lambda>m. imb_put_committed_batch m cs) b,
      remove_committed_version = spy_remove_committed_version,
      all_keys = \<lambda>b. imb_all_keys (spy_inner b),
      put_intents_batch = \<lambda>b is. on_spied (\<lambda>m. imb_put_intents_batch m is) b,
      commit_intents_batch = \<lambda>b cs rs. on_spied (\<lambda>m. imb_commit_intents_batch m cs rs) b,
      remove_intents_batch = \<lambda>b rs. on_spied (\<lambda>m. imb_remove_intents_batch m rs) b,
      keys_from = \<lambda>b. imb_keys_from (spy_inner b),
      keys_from_prefix = \<lambda>b. imb_keys_from_prefix (spy_inner b),
      get_committed_timestamps_before = \<lambda>b. imb_get_committed_timestamps_before (spy_inner b),
      collapse_tombstone = spy_collapse_tombstone\<rparr>"

definition spy_valid :: "spy_backend \<Rightarrow> bool" where
  "spy_valid b \<longleftrightarrow> imb_valid (spy_inner b)"

definition spy_view :: "spy_backend \<Rightarrow> mvcc_view" where
  "spy_view b = imb_view (spy_inner b)"

lemma on_spied_outcome: "spy_inner b = spy_inner b0 \<Longrightarrow> inner_outcome spy_inner (on_spied f b) = f (spy_inner b0)"
  by (auto simp: inner_outcome_def on_spied_def split: prod.splits)

interpretation spied: delegating_backend in_memory_ops imb_valid imb_view spy_ops spy_inner
  by unfold_locales
    (simp_all add: spy_ops_def on_spied_outcome spy_remove_committed_version_def spy_collapse_tombstone_def)

interpretation spy: total_backend spy_ops spy_valid spy_view
  unfolding spy_valid_def [abs_def] spy_view_def [abs_def] by (rule spied.outer.total_backend_axioms)

end
