(* ===== verification/Spy_Laws.thy ===== *)
theory Spy_Laws
  imports Spy_Backend
begin

text \<open>
  What an incremental collection step asks of its store, read off the logs of the recording backend:
  one lemma per branch of the step, composed along the keys of a page.
\<close>

section \<open>Justified calls\<close>

text \<open>
  In the view \<open>v\<close> the step started from: a collapse names the newest version of an unlocked key, a tombstone
  at or below the safe point, with the complete older history; a removal names an obsolete version.
\<close>

definition collapse_justified :: "timestamp \<Rightarrow> mvcc_view \<Rightarrow> key \<times> timestamp \<times> timestamp list \<Rightarrow> bool" where
  "collapse_justified sp v call \<longleftrightarrow>
     (case call of (k, t, older) \<Rightarrow>
        locks v k = None \<and> visible (vers v k) sp = Some (t, None) \<and> newest_ts (vers v k) = Some t \<and>
        older = older_desc (vers v k) t)"

definition removal_justified :: "timestamp \<Rightarrow> mvcc_view \<Rightarrow> key \<times> timestamp \<Rightarrow> bool" where
  "removal_justified sp v call \<longleftrightarrow> (case call of (k, t) \<Rightarrow> t \<in> obsolete (vers v k) sp)"

text \<open>How many versions the calls remove.\<close>

definition versions_named :: "collapse_tombstone_calls \<Rightarrow> remove_committed_version_calls \<Rightarrow> nat" where
  "versions_named cs rs = length rs + sum_list (map (\<lambda>(k, t, older). Suc (length older)) cs)"

lemma versions_named_append:
  "versions_named (cs @ cs') (rs @ rs') = versions_named cs rs + versions_named cs' rs'"
  by (simp add: versions_named_def)

lemma justified_cong:
  assumes "vers v' (fst call) = vers v (fst call)" and "locks v' = locks v"
  shows "collapse_justified sp v' call = collapse_justified sp v call"
  using assms by (cases call) (simp add: collapse_justified_def)

lemma removal_justified_cong:
  assumes "vers v' (fst call) = vers v (fst call)"
  shows "removal_justified sp v' call = removal_justified sp v call"
  using assms by (cases call) (simp add: removal_justified_def)

text \<open>
  Between \<open>b\<close> and \<open>b'\<close> the logs grew by justified calls on keys of \<open>ks\<close>, naming \<open>n' - n\<close> versions.
\<close>

definition justified_calls ::
  "timestamp \<Rightarrow> mvcc_view \<Rightarrow> key set \<Rightarrow> spy_backend \<Rightarrow> nat \<Rightarrow> spy_backend \<Rightarrow> nat \<Rightarrow> bool" where
  "justified_calls sp v ks b n b' n' \<longleftrightarrow>
     (\<exists>cs rs. collapse_calls b' = collapse_calls b @ cs \<and> remove_calls b' = remove_calls b @ rs \<and>
        (\<forall>call\<in>set cs. fst call \<in> ks \<and> collapse_justified sp v call) \<and>
        (\<forall>call\<in>set rs. fst call \<in> ks \<and> removal_justified sp v call) \<and> n' = n + versions_named cs rs)"

lemma justified_calls_refl: "justified_calls sp v ks b n b n"
  unfolding justified_calls_def by (intro exI [of _ "[]"]) (simp add: versions_named_def)

lemma justified_calls_mono:
  "justified_calls sp v ks b n b' n' \<Longrightarrow> ks \<subseteq> ks' \<Longrightarrow> justified_calls sp v ks' b n b' n'"
  unfolding justified_calls_def by blast

lemma justified_calls_trans:
  assumes "justified_calls sp v ks b n b1 n1" and "justified_calls sp v1 ks' b1 n1 b2 n2"
    and "\<And>k. k \<in> ks' \<Longrightarrow> vers v1 k = vers v k" and "locks v1 = locks v"
  shows "justified_calls sp v (ks \<union> ks') b n b2 n2"
proof -
  obtain cs rs cs' rs' where "collapse_calls b1 = collapse_calls b @ cs" "remove_calls b1 = remove_calls b @ rs"
    "\<forall>call\<in>set cs. fst call \<in> ks \<and> collapse_justified sp v call"
    "\<forall>call\<in>set rs. fst call \<in> ks \<and> removal_justified sp v call" "n1 = n + versions_named cs rs"
    "collapse_calls b2 = collapse_calls b1 @ cs'" "remove_calls b2 = remove_calls b1 @ rs'"
    "\<forall>call\<in>set cs'. fst call \<in> ks' \<and> collapse_justified sp v1 call"
    "\<forall>call\<in>set rs'. fst call \<in> ks' \<and> removal_justified sp v1 call" "n2 = n1 + versions_named cs' rs'"
    using assms(1,2) by (auto simp: justified_calls_def)
  moreover have "collapse_justified sp v call" if "fst call \<in> ks'" "collapse_justified sp v1 call" for call
    using justified_cong [OF assms(3) assms(4)] that by blast
  moreover have "removal_justified sp v call" if "fst call \<in> ks'" "removal_justified sp v1 call" for call
    using removal_justified_cong [OF assms(3)] that by blast
  ultimately show ?thesis
    unfolding justified_calls_def
    by (intro exI [of _ "cs @ cs'"] exI [of _ "rs @ rs'"]) (auto simp: versions_named_append)
qed

section \<open>The branches of a step\<close>

lemma spy_ops_sel:
  "remove_committed_version spy_ops = spy_remove_committed_version"
  "collapse_tombstone spy_ops = spy_collapse_tombstone"
  by (simp_all add: spy_ops_def)

lemma spy_remove_logs:
  "\<exists>i. spy_remove_committed_version b k t = (Ok (), b\<lparr>remove_calls := remove_calls b @ [(k, t)], spy_inner := i\<rparr>)"
  by (auto simp: spy_remove_committed_version_def on_spied_def imb_remove_committed_version_def)

lemma spy_collapse_logs:
  "\<exists>i. spy_collapse_tombstone b k t older =
     (Ok (), b\<lparr>collapse_calls := collapse_calls b @ [(k, t, older)], spy_inner := i\<rparr>)"
  by (auto simp: spy_collapse_tombstone_def on_spied_def imb_collapse_tombstone_def Let_def)

lemma gc_remove_versions_logs:
  assumes "gc_remove_versions spy_ops e k tss acc = (Inr acc', e')"
  shows "collapse_calls e' = collapse_calls e \<and> remove_calls e' = remove_calls e @ map (Pair k) tss \<and>
    acc_versions_removed acc' = acc_versions_removed acc + length tss"
  using assms
proof (induction tss arbitrary: e acc)
  case (Cons t tss)
  obtain i where "spy_remove_committed_version e k t =
      (Ok (), e\<lparr>remove_calls := remove_calls e @ [(k, t)], spy_inner := i\<rparr>)"
    using spy_remove_logs by blast
  with Cons show ?case
    by (simp add: spy_ops_sel)
qed simp

lemma justified_removals:
  assumes "gc_remove_versions spy_ops e k tss (acc\<lparr>acc_versions_scanned := m\<rparr>) = (Inr acc', e')"
    and "set tss \<subseteq> obsolete (vers v k) sp"
  shows "justified_calls sp v {k} e (acc_versions_removed acc) e' (acc_versions_removed acc')"
  unfolding justified_calls_def using gc_remove_versions_logs [OF assms(1)] assms(2)
  by (intro exI [of _ "[]"] exI [of _ "map (Pair k) tss"])
    (auto simp: versions_named_def removal_justified_def)

lemma gc_key_normal_calls:
  assumes "spy_valid e" and "visible (vers (spy_view e) k) sp = Some (kt, x)"
    and "gc_key_normal spy_ops e k (as_version k (kt, x)) limit acc = (Inr (acc', flow), e')"
  shows "justified_calls sp (spy_view e) {k} e (acc_versions_removed acc) e' (acc_versions_removed acc')"
proof -
  define older where "older = take (unat (limit + 1)) (older_desc (vers (spy_view e) k) kt)"
  have sub: "set older \<subseteq> obsolete (vers (spy_view e) k) sp"
    using spy.finite_vers [OF assms(1)]
    by (auto simp: older_def obsolete_keeper [OF _ assms(2)] dest: in_set_takeD)
  define tss where "tss = (if unat limit < length older then butlast older else older)"
  obtain m where m: "gc_remove_versions spy_ops e k tss (acc\<lparr>acc_versions_scanned := m\<rparr>) = (Inr acc', e')"
    using assms(3)
    by (auto simp: gc_key_normal_def spy.get_committed_timestamps_before_eq [OF assms(1)] as_version_def
        older_def [symmetric] Let_def tss_def [symmetric] split: prod.splits sum.splits)
  have "set tss \<subseteq> set older"
    by (auto simp: tss_def dest: in_set_butlastD)
  with sub show ?thesis
    by (intro justified_removals [OF m]) blast
qed

lemma gc_key_final_calls:
  assumes "spy_valid e" and "visible (vers (spy_view e) k) sp = Some (kt, x)"
    and "locks (spy_view e) k = None \<and> ends_in_tombstone (vers (spy_view e) k) sp" and "limit \<noteq> - 1"
    and "gc_key_final spy_ops e k (as_version k (kt, x)) limit acc = (Inr (acc', flow), e')"
  shows "justified_calls sp (spy_view e) {k} e (acc_versions_removed acc) e' (acc_versions_removed acc')"
proof -
  let ?d = "older_desc (vers (spy_view e) k) kt"
  define older where "older = take (Suc (unat limit)) ?d"
  have sub: "set older \<subseteq> obsolete (vers (spy_view e) k) sp"
    using spy.finite_vers [OF assms(1)]
    by (auto simp: older_def obsolete_keeper [OF _ assms(2)] dest: in_set_takeD)
  have eq: "get_committed_timestamps_before spy_ops e k kt (limit + 1) = Inr older"
    by (simp add: spy.get_committed_timestamps_before_eq [OF assms(1)] older_def unat_plus_one [OF assms(4)])
  show ?thesis
  proof (cases "length older < unat limit")
    case True
    then have older: "older = ?d"
      by (simp add: older_def)
    obtain i where "spy_collapse_tombstone e k kt older =
        (Ok (), e\<lparr>collapse_calls := collapse_calls e @ [(k, kt, older)], spy_inner := i\<rparr>)"
      using spy_collapse_logs by blast
    with True assms(5) have e': "collapse_calls e' = collapse_calls e @ [(k, kt, older)]"
      "remove_calls e' = remove_calls e" "acc_versions_removed acc' = acc_versions_removed acc + Suc (length older)"
      by (auto simp: gc_key_final_def eq as_version_def spy_ops_sel)
    have "collapse_justified sp (spy_view e) (k, kt, older)"
      using assms(2,3) older by (simp add: collapse_justified_def ends_in_tombstone_keeper)
    with e' show ?thesis
      unfolding justified_calls_def
      by (intro exI [of _ "[(k, kt, older)]"] exI [of _ "[]"]) (simp add: versions_named_def)
  next
    case False
    define tss where "tss = (if unat limit < length older then butlast older else older)"
    obtain m where m: "gc_remove_versions spy_ops e k tss (acc\<lparr>acc_versions_scanned := m\<rparr>) = (Inr acc', e')"
      using assms(5) False
      by (auto simp: gc_key_final_def eq as_version_def tss_def split: prod.splits sum.splits if_splits)
    have "set tss \<subseteq> set older"
      by (auto simp: tss_def dest: in_set_butlastD)
    with sub show ?thesis
      by (intro justified_removals [OF m]) blast
  qed
qed

section \<open>Keys, pages and steps\<close>

lemma gc_key_keeper_calls:
  assumes "spy_valid e" and "visible (vers (spy_view e) k) sp = Some (kt, x)"
    and "max_versions (budget options) \<noteq> - 1"
    and "acc_versions_removed acc \<le> unat (max_versions (budget options))"
    and "gc_key_keeper spy_ops e options k (as_version k (kt, x)) (locks (spy_view e) k \<noteq> None) acc =
      (Inr (acc', flow), e')"
  shows "justified_calls sp (spy_view e) {k} e (acc_versions_removed acc) e' (acc_versions_removed acc')"
proof -
  define limit where "limit = max_versions (budget options) - of_nat (acc_versions_removed acc)"
  let ?final = "final_tombstone spy_ops e k options (as_version k (kt, x)) (locks (spy_view e) k \<noteq> None)"
  obtain is_final where final: "?final = Inr is_final"
    using spy.final_tombstone_total [OF assms(1), of k options "as_version k (kt, x)" "locks (spy_view e) k \<noteq> None"]
    by (cases ?final) (simp_all del: not_None_eq)
  show ?thesis
  proof (cases "limit = 0")
    case True
    with assms(5) final show ?thesis
      by (auto simp: gc_key_keeper_def limit_def [symmetric] gc_key_exhausted_def res_bind_eq_Ok
          justified_calls_refl split: if_splits)
  next
    case False
    then have "(if is_final then gc_key_final spy_ops e k (as_version k (kt, x)) limit acc
        else gc_key_normal spy_ops e k (as_version k (kt, x)) limit acc) = (Inr (acc', flow), e')"
      using assms(5) final by (simp add: gc_key_keeper_def limit_def [symmetric])
    then show ?thesis
      using gc_key_final_calls [OF assms(1,2)] gc_key_normal_calls [OF assms(1,2)]
        spy.final_tombstone_law [OF assms(1,2) final] budget_left(2) [OF assms(4,3)]
      by (auto simp: limit_def [symmetric] split: if_splits)
  qed
qed

lemma gc_key_calls:
  assumes "spy_valid e" and "max_versions (budget options) \<noteq> - 1"
    and "acc_versions_removed acc \<le> unat (max_versions (budget options))"
    and "gc_key spy_ops e sp options k acc = (Inr (acc', flow), e')"
  shows "justified_calls sp (spy_view e) {k} e (acc_versions_removed acc) e' (acc_versions_removed acc')"
proof (cases "visible (vers (spy_view e) k) sp")
  case None
  with assms(1,4) show ?thesis
    by (auto simp: gc_key_def spy.get_intent_eq spy.get_visible_committed_eq Let_def justified_calls_refl
        split: if_splits)
next
  case (Some p)
  obtain kt x where p: "p = (kt, x)"
    by (cases p)
  define acc1 where "acc1 =
    acc\<lparr>acc_keys_scanned := acc_keys_scanned acc + 1,
        acc_intents_preserved := acc_intents_preserved acc + of_bool (locks (spy_view e) k \<noteq> None),
        acc_versions_scanned := acc_versions_scanned acc + 1\<rparr>"
  have "gc_key_keeper spy_ops e options k (as_version k (kt, x)) (locks (spy_view e) k \<noteq> None) acc1 =
      (Inr (acc', flow), e')"
    using assms(1,4) Some p
    by (cases "locks (spy_view e) k")
      (simp_all add: gc_key_def spy.get_intent_eq spy.get_visible_committed_eq Let_def acc1_def)
  then show ?thesis
    using gc_key_keeper_calls [OF assms(1) Some [unfolded p] assms(2), of acc1] assms(3) by (simp add: acc1_def)
qed

lemma gc_keys_calls:
  assumes "spy_valid e" and "max_versions (budget options) \<noteq> - 1"
    and "acc_versions_removed acc \<le> unat (max_versions (budget options))" and "distinct ks"
    and "gc_keys spy_ops e sp options ks acc = (Inr (acc', stopped), e')"
  shows "justified_calls sp (spy_view e) (set ks) e (acc_versions_removed acc) e' (acc_versions_removed acc')"
  using assms(1,3-5)
proof (induction ks arbitrary: e acc)
  case Nil
  then show ?case
    by (simp add: justified_calls_refl)
next
  case (Cons k ks)
  obtain acc1 flow e1 where g: "gc_key spy_ops e sp options k acc = (Inr (acc1, flow), e1)"
    using Cons.prems(4) by (auto split: prod.splits sum.splits gc_flow.splits)
  note first = gc_key_calls [OF Cons.prems(1) assms(2) Cons.prems(2) g]
  have post: "gc_key_post spy_valid spy_view sp (collapse_final_tombstones options)
      (unat (max_versions (budget options))) k e
      (acc\<lparr>acc_keys_scanned := acc_keys_scanned acc + 1,
           acc_intents_preserved := acc_intents_preserved acc + of_bool (locks (spy_view e) k \<noteq> None)\<rparr>)
      (Inr (acc1, flow), e1)"
    using spy.gc_key_law [OF Cons.prems(1) assms(2) Cons.prems(2), of sp k] g by simp
  then have safe: "gc_safe spy_valid spy_view sp (collapse_final_tombstones options) {k} e e1"
    and le: "acc_versions_removed acc1 \<le> unat (max_versions (budget options))"
    by (auto simp: gc_key_post_def gc_counted_def)
  show ?case
  proof (cases flow)
    case NextKey
    then have rest: "justified_calls sp (spy_view e1) (set ks) e1 (acc_versions_removed acc1) e' (acc_versions_removed acc')"
      using Cons g gc_safe_valid [OF safe] le by simp
    have "justified_calls sp (spy_view e) ({k} \<union> set ks) e (acc_versions_removed acc) e' (acc_versions_removed acc')"
    proof (rule justified_calls_trans [OF first rest])
      show "vers (spy_view e1) j = vers (spy_view e) j" if "j \<in> set ks" for j
        using safe that Cons.prems(3) by (auto simp: gc_safe_def)
      show "locks (spy_view e1) = locks (spy_view e)"
        by (rule gc_safe_locks [OF safe])
    qed
    then show ?thesis
      by simp
  next
    case (StopAt s)
    then show ?thesis
      using justified_calls_mono [OF first, of "set (k # ks)"] Cons.prems(4) g by simp
  qed
qed

lemma gc_incremental_calls:
  assumes "spy_valid e" and "\<not> wrapping_collapse options"
    and "gc_incremental spy_ops e sp cursor options = (Inr res, e')"
  shows "justified_calls sp (spy_view e) UNIV e 0 e' (versions_removed res)"
proof (cases "max_versions (budget options) = - 1")
  case True
  then have "\<not> budget_ok (budget options)"
    by (simp add: budget_ok_def)
  then have "e' = e" "versions_removed res = 0"
    using spy.gc_incremental_idle [OF assms(1) _ assms(2,3)] by simp_all
  then show ?thesis
    by (simp add: justified_calls_refl)
next
  case False
  let ?n = "unat (max_keys (budget options))"
  let ?ks = "v_keys_from (spy_view e) (Option.bind cursor next_key) (unat (max_keys (budget options) + 1))"
  let ?page = "take (min (length ?ks) ?n) ?ks"
  have bu: "max_keys (budget options) \<noteq> 0" "max_versions (budget options) \<noteq> 0" "max_versions (budget options) \<noteq> - 1"
    using False assms(3) by (auto simp: gc_incremental_def split: if_splits)
  have d: "distinct ?page"
    by (simp add: keys_in_range_facts(3) spy.valid_view_ok assms(1)
        strict_sorted_distinct [OF keys_in_range_facts(1) [OF spy.valid_view_ok [OF assms(1)]]])
  obtain acc stopped where run: "gc_keys spy_ops e sp options ?page gc_acc_zero = (Inr (acc, stopped), e')"
    and n: "versions_removed res = acc_versions_removed acc"
    using assms(3) bu by (auto simp: gc_incremental_def spy.keys_from_eq [OF assms(1)] Let_def
        split: prod.splits sum.splits)
  have zero: "acc_versions_removed gc_acc_zero = 0"
    by (simp add: gc_acc_zero_def)
  have "justified_calls sp (spy_view e) (set ?page) e 0 e' (versions_removed res)"
    using gc_keys_calls [OF assms(1) bu(3) _ d run] by (simp only: zero n)
  then show ?thesis
    by (rule justified_calls_mono) simp
qed

end
