(* ===== verification/Gc_Properties.thy ===== *)
theory Gc_Properties
  imports Mvcc_Examples Spy_Laws
begin

text \<open>
  The properties of history retention: what the planner, one incremental step and the full
  collection do to the store and to its readers, within which budgets, and what happens at the
  largest budgets, where \<open>+ 1\<close> wraps around.
\<close>

section \<open>Full collection\<close>

definition ex_gc :: "usize \<Rightarrow> usize \<Rightarrow> bool \<Rightarrow> gc_options" where
  "ex_gc mk mv c = \<lparr>budget = \<lparr>max_keys = mk, max_versions = mv\<rparr>, collapse_final_tombstones = c\<rparr>"

lemma ex_gc_budget_ok: "budget_ok (budget (ex_gc 1 1 c))"
  by (simp add: ex_gc_def budget_ok_def)

lemma gc_wraps_at_max_keys:
  assumes "imb_valid e" and "max_keys (budget options) = - 1" and "max_versions (budget options) \<noteq> 0"
  shows "gc_incremental in_memory_ops e sp cursor options =
    (Ok \<lparr>gc_cursor = \<lparr>next_key = None\<rparr>, gc_done = True, keys_scanned = 0, versions_scanned = 0,
         versions_removed = 0, intents_preserved = 0\<rparr>, e)"
  using assms
  by (simp add: gc_incremental_def imb.keys_from_eq [OF assms(1)] v_keys_from_def gc_acc_zero_def Let_def
      del: in_memory_ops_sel)

text \<open>
  C9. With both budgets between \<open>1\<close> and \<open>usize::MAX - 1\<close> the full collection terminates with success on the in-memory
  backend and leaves exactly the compacted store: per key the versions at or above the newest one at the safe point, nothing of
  a key that ends in an unlocked tombstone if those are collapsed, all intents; the statistics count what was removed and
  what was kept. If a budget is zero, it is rejected and nothing changes. If \<open>max_keys\<close> is \<open>usize::MAX\<close>, the
  collection succeeds without having removed anything.
\<close>

theorem gc_compacts:
  assumes "imb_valid e"
  shows "(budget_ok (budget options) \<longrightarrow>
      (\<exists>stats e'. gc in_memory_ops e sp options = Some (Ok stats, e') \<and> imb_valid e' \<and>
        imb_view e' = compact_view sp (collapse_final_tombstones options) (imb_view e) \<and>
        total_versions (imb_view e') + stats_versions_removed stats = total_versions (imb_view e) \<and>
        stats_intents_preserved stats = card (dom (locks (imb_view e))))) \<and>
    (max_keys (budget options) = 0 \<or> max_versions (budget options) = 0 \<longrightarrow>
      gc in_memory_ops e sp options = Some (Err gc_error.InvalidGcBudget, e)) \<and>
    (max_keys (budget options) = - 1 \<and> max_versions (budget options) \<noteq> 0 \<longrightarrow>
      (\<exists>stats. gc in_memory_ops e sp options = Some (Ok stats, e) \<and> stats_versions_removed stats = 0))"
proof (intro conjI impI)
  show "\<exists>stats e'. gc in_memory_ops e sp options = Some (Ok stats, e') \<and> imb_valid e' \<and>
      imb_view e' = compact_view sp (collapse_final_tombstones options) (imb_view e) \<and>
      total_versions (imb_view e') + stats_versions_removed stats = total_versions (imb_view e) \<and>
      stats_intents_preserved stats = card (dom (locks (imb_view e)))" if "budget_ok (budget options)"
    by (rule imb.gc_exact [OF assms that]) blast
  show "gc in_memory_ops e sp options = Some (Err gc_error.InvalidGcBudget, e)"
    if "max_keys (budget options) = 0 \<or> max_versions (budget options) = 0"
    using that by (auto simp: gc_def gc_loop.simps [of _ _ _ None] gc_incremental_def)
  show "\<exists>stats. gc in_memory_ops e sp options = Some (Ok stats, e) \<and> stats_versions_removed stats = 0"
    if "max_keys (budget options) = - 1 \<and> max_versions (budget options) \<noteq> 0"
  proof -
    have "gc_loop in_memory_ops sp options None 0 e = Some (Ok 0, e)"
      using that by (subst gc_loop.simps) (simp add: gc_wraps_at_max_keys [OF assms] del: in_memory_ops_sel)
    moreover obtain n where
      "gc_count_intents in_memory_ops e (sorted_list_of_set (view_keys (imb_view e))) 0 = Inr n"
      using imb.gc_count_intents_total [OF assms] by (metis sum.collapse(2))
    ultimately show ?thesis
      by (simp add: gc_def imb.all_keys_eq [OF assms] del: in_memory_ops_sel)
  qed
qed

theorem gc_compacts_witness:
  "\<exists>stats e'. gc in_memory_ops ex_deleted (Timestamp 9) (ex_gc 1 1 True) = Some (Ok stats, e') \<and>
     vers (imb_view e') [1] = Map.empty"
proof -
  have fin: "finite (dom (vers (imb_view ex_deleted) [1]))"
    by (simp add: ex_views)
  then have "ends_in_tombstone (vers (imb_view ex_deleted) [1]) (Timestamp 9)"
    unfolding ends_in_tombstone_def
    by (intro exI [of _ "Timestamp 8"]) (simp add: visible_Some_iff newest_ts_Some_iff ex_views)
  then show ?thesis
    using gc_compacts [OF ex_valid(3), of "ex_gc 1 1 True" "Timestamp 9"] ex_gc_budget_ok [of True]
    by (auto simp: compact_view_vers compact_history_def ex_views ex_gc_def)
qed

text \<open>
  C10. No reader at or above the safe point gets another value after a collection, however it ends: ordinary reads and
  reads of own writes return the same values. A read that asks for the version too returns the same version if tombstones are
  not collapsed; a key whose final tombstone was collapsed has no version left to return. This holds for all budgets,
  except for \<open>max_versions = usize::MAX\<close> together with tombstone collapse, where \<open>limit + 1\<close> wraps.
\<close>

theorem gc_preserves_reads:
  assumes "imb_valid e" and "gc in_memory_ops e sp options = Some (r, e')" and "sp \<le> ts"
    and "\<not> (max_versions (budget options) = - 1 \<and> collapse_final_tombstones options)"
  shows "read in_memory_ops e' k ts = read in_memory_ops e k ts \<and>
    read_own_write in_memory_ops e' k txn s ts = read_own_write in_memory_ops e k txn s ts \<and>
    (\<not> collapse_final_tombstones options \<longrightarrow>
       read_with_version in_memory_ops e' k ts = read_with_version in_memory_ops e k ts)"
proof -
  have safe: "gc_safe imb_valid imb_view sp (collapse_final_tombstones options) UNIV e e'"
    using imb_contract.gc_always_safe [OF assms(2) _ assms(1)] assms(4) by (simp add: wrapping_collapse_def)
  then have e': "imb_valid e'" and red: "gc_reduces sp (collapse_final_tombstones options) (imb_view e) (imb_view e')"
    by (auto simp: gc_safe_def)
  note oks = imb_reads.valid_view_ok [OF assms(1)] imb_reads.valid_view_ok [OF e']
  show ?thesis
    using gc_reduces_visible_value [OF red oks assms(3)] gc_reduces_visible [OF _ oks assms(3)] red
      gc_reduces_locks [OF red]
    by (auto simp: imb.read_eq imb.read_with_version_eq imb.read_own_write_eq assms(1) e' owns_def)
qed

theorem gc_preserves_reads_witness:
  "\<exists>r e'. gc in_memory_ops ex_updated (Timestamp 9) (ex_gc 1 1 False) = Some (r, e') \<and>
     read in_memory_ops e' [1] (Timestamp 9) = read in_memory_ops ex_updated [1] (Timestamp 9)"
proof -
  obtain r e' where "gc in_memory_ops ex_updated (Timestamp 9) (ex_gc 1 1 False) = Some (r, e')"
    using imb_contract.gc_law [OF ex_valid(4) ex_gc_budget_ok] by blast
  then show ?thesis
    using gc_preserves_reads [OF ex_valid(4), of "Timestamp 9" "ex_gc 1 1 False" r e' "Timestamp 9" "[1]"]
    by (simp add: ex_gc_def)
qed

text \<open>
  C29. With budgets between \<open>1\<close> and \<open>usize::MAX - 1\<close> the loop of the full collection ends on every backend that keeps its
  contract, also on one whose calls fail: each step but the last removes a version or moves the cursor over a key.
\<close>

theorem gc_returns:
  assumes "backend_contract B valid view" and "valid e" and "budget_ok (budget options)"
  shows "\<exists>r e'. gc B e sp options = Some (r, e') \<and> valid e'"
  using backend_contract.gc_law [OF assms, of sp] by (auto simp: gc_safe_def)

theorem gc_returns_witness:
  "\<exists>r e'. gc failing_ops (failing_new\<lparr>inner := ex_updated\<rparr>) (Timestamp 9) (ex_gc 1 1 True) = Some (r, e')"
proof -
  have "fb_valid (failing_new\<lparr>inner := ex_updated\<rparr>)"
    by (simp add: fb_valid_def)
  then show ?thesis
    using gc_returns [OF fb.backend_contract_axioms _ ex_gc_budget_ok] by blast
qed

section \<open>Incremental collection\<close>

text \<open>
  C27. On every backend that keeps its contract an incremental step is safe even if the backend fails in the
  middle of it: the state stays valid, every intent is kept, no version is added or changed, and no reader at or
  above the safe point sees another value. This holds for all budgets, except for \<open>max_versions = usize::MAX\<close> together
  with tombstone collapse.
\<close>

theorem gc_step_fail_safe:
  assumes "backend_contract B valid view" and "valid e" and "gc_incremental B e sp cursor options = (r, e')"
    and "\<not> (max_versions (budget options) = - 1 \<and> collapse_final_tombstones options)"
  shows "valid e' \<and> locks (view e') = locks (view e) \<and> (\<forall>k. vers (view e') k \<subseteq>\<^sub>m vers (view e) k) \<and>
    (\<forall>k ts. sp \<le> ts \<longrightarrow> visible_value (vers (view e') k) ts = visible_value (vers (view e) k) ts)"
proof -
  note view_ok = backend_reads.valid_view_ok [OF backend_contract.axioms(1) [OF assms(1)]]
  have "gc_safe valid view sp (collapse_final_tombstones options) {k. from_key (Option.bind cursor next_key) k} e e'"
    using backend_contract.gc_incremental_safe [OF assms(1,2) _ assms(3)] assms(4) by (simp add: wrapping_collapse_def)
  then have e': "valid e'" and red: "gc_reduces sp (collapse_final_tombstones options) (view e) (view e')"
    by (auto simp: gc_safe_def)
  show ?thesis
    using e' gc_reduces_locks [OF red] red
      gc_reduces_visible_value [OF red view_ok [OF assms(2)] view_ok [OF e']]
    by (auto simp: gc_reduces_def)
qed

theorem gc_step_fail_safe_witness:
  "\<exists>r e'. gc_incremental in_memory_ops ex_updated (Timestamp 9) None (ex_gc 1 1 False) = (r, e') \<and>
     visible_value (vers (imb_view e') [1]) (Timestamp 9) = visible_value (vers (imb_view ex_updated) [1]) (Timestamp 9)"
proof -
  obtain r e' where step: "gc_incremental in_memory_ops ex_updated (Timestamp 9) None (ex_gc 1 1 False) = (r, e')"
    by fastforce
  then show ?thesis
    using gc_step_fail_safe [OF imb_contract.backend_contract_axioms ex_valid(4) step] by (simp add: ex_gc_def)
qed

lemma imb_step:
  assumes "imb_valid e" and "budget_ok (budget options)"
  obtains res e' where "gc_incremental in_memory_ops e sp cursor options = (Ok res, e')"
    and "gc_step_post imb_valid imb_view sp options (Option.bind cursor next_key) e (Ok res, e')"
proof -
  obtain res e' where "gc_incremental in_memory_ops e sp cursor options = (Ok res, e')"
    using imb.gc_incremental_total [OF assms] .
  then show thesis
    using that imb_contract.gc_incremental_law [OF assms, of sp cursor] by simp
qed

text \<open>
  C30. Budgets: with a positive budget below \<open>usize::MAX\<close> an incremental step succeeds on the in-memory backend, scans at
  most \<open>max_keys\<close> keys, removes at most \<open>max_versions\<close> versions, reports exactly the number of versions that left the
  store, and leaves every key before its cursor alone; a budget with a zero is rejected and changes nothing.
\<close>

theorem gc_step_budget:
  assumes "imb_valid e" and "budget_ok (budget options)"
    and "max_keys (budget options') = 0 \<or> max_versions (budget options') = 0"
  shows "(\<exists>res e'. gc_incremental in_memory_ops e sp cursor options = (Ok res, e') \<and> imb_valid e' \<and>
      keys_scanned res \<le> unat (max_keys (budget options)) \<and>
      versions_removed res \<le> unat (max_versions (budget options)) \<and>
      total_versions (imb_view e') + versions_removed res = total_versions (imb_view e) \<and>
      (gc_done res \<longleftrightarrow> next_key (gc_cursor res) = None) \<and>
      (\<forall>k. \<not> from_key (Option.bind cursor next_key) k \<longrightarrow> vers (imb_view e') k = vers (imb_view e) k)) \<and>
    gc_incremental in_memory_ops e sp cursor options' = (Err gc_error.InvalidGcBudget, e)"
proof -
  obtain res e' where "gc_incremental in_memory_ops e sp cursor options = (Ok res, e')"
    and "gc_step_post imb_valid imb_view sp options (Option.bind cursor next_key) e (Ok res, e')"
    using imb_step [OF assms(1,2)] .
  moreover have "gc_incremental in_memory_ops e sp cursor options' = (Err gc_error.InvalidGcBudget, e)"
    using assms(3) by (auto simp: gc_incremental_def)
  ultimately show ?thesis
    by (auto simp: gc_step_post_def gc_safe_def split: option.splits)
qed

theorem gc_step_budget_witness:
  "\<exists>res e'. gc_incremental in_memory_ops ex_updated (Timestamp 9) None (ex_gc 1 1 False) = (Ok res, e') \<and>
     versions_removed res \<le> 1"
  using gc_step_budget [OF ex_valid(4) ex_gc_budget_ok, of "ex_gc 0 1 False" "Timestamp 9" None False]
  by (auto simp: ex_gc_def)

text \<open>
  Progress: a step that is not the last hands back a cursor at or after the one it got, and with it less work -
  fewer versions in the store, or as many versions and fewer keys left from the cursor on.
\<close>

theorem gc_step_progress:
  assumes "imb_valid e" and "budget_ok (budget options)"
    and "gc_incremental in_memory_ops e sp cursor options = (Ok res, e')" and "\<not> gc_done res"
  shows "\<exists>nk. next_key (gc_cursor res) = Some nk \<and> from_key (Option.bind cursor next_key) nk \<and>
    nk \<in> view_keys (imb_view e) \<and>
    gc_work (imb_view e') (Some nk) < gc_work (imb_view e) (Option.bind cursor next_key)"
proof -
  have post: "gc_step_post imb_valid imb_view sp options (Option.bind cursor next_key) e (Ok res, e')"
    using imb_contract.gc_incremental_law [OF assms(1,2), of sp cursor] assms(3) by simp
  show ?thesis
    using gc_work_decreases [OF post imb_reads.valid_view_ok [OF assms(1)] assms(4)] post assms(4)
    by (auto simp: gc_step_post_def split: option.splits)
qed

definition ex_two_old :: in_memory where
  "ex_two_old = snd (apply_direct_batch in_memory_ops ex_updated (Timestamp 10)
     [\<lparr>pw_key = [1], pw_value = Some [2]\<rparr>])"

lemma ex_two_old_valid: "imb_valid ex_two_old"
  using imb.apply_direct_batch_exact [OF ex_valid(4), of "Timestamp 10" "[\<lparr>pw_key = [1], pw_value = Some [2]\<rparr>]"]
  by (auto simp: ex_two_old_def batch_exact_def split: prod.splits)

theorem gc_step_progress_witness:
  "\<exists>res e'. gc_incremental in_memory_ops ex_two_old (Timestamp 20) None (ex_gc 1 1 False) = (Ok res, e') \<and>
     gc_work (imb_view e') (Some [1]) < gc_work (imb_view ex_two_old) None"
proof -
  obtain r e' where step: "gc_incremental in_memory_ops ex_two_old (Timestamp 20) None (ex_gc 1 1 False) = (r, e')"
    by fastforce
  have "map_sum (\<lambda>_. ()) (\<lambda>res. (gc_done res, next_key (gc_cursor res)))
      (fst (gc_incremental in_memory_ops ex_two_old (Timestamp 20) None (ex_gc 1 1 False))) = Inr (False, Some [1])"
    by code_simp
  with step obtain res where res: "r = Ok res" "\<not> gc_done res" "next_key (gc_cursor res) = Some [1]"
    by (cases r) auto
  then show ?thesis
    using step gc_step_progress [OF ex_two_old_valid ex_gc_budget_ok, of "Timestamp 20" None False res e'] by auto
qed

text \<open>
  C31. A run of incremental steps collects completely: a client starts without a cursor, hands the cursor of each step to
  the next, and gives each step a budget of its own, between \<open>1\<close> and \<open>usize::MAX - 1\<close>. At every point of the run
  the removed versions are counted exactly and reads at or above the safe point return what they returned at its start. When a
  step reports that it is done, the store is exactly the compacted form of the store the run started with; and more steps
  than there were versions and keys, and one, are never needed.
\<close>

theorem gc_run_compacts:
  assumes "imb_valid e" and "\<forall>b\<in>set budgets. budget_ok b"
  shows "\<exists>removed finished e'. gc_run in_memory_ops sp collapse None budgets 0 e = (Ok (removed, finished), e') \<and>
    imb_valid e' \<and> total_versions (imb_view e') + removed = total_versions (imb_view e) \<and>
    (\<forall>k ts. sp \<le> ts \<longrightarrow> read in_memory_ops e' k ts = read in_memory_ops e k ts) \<and>
    (finished \<longrightarrow> imb_view e' = compact_view sp collapse (imb_view e)) \<and>
    (total_versions (imb_view e) + card (view_keys (imb_view e)) < length budgets \<longrightarrow> finished)"
proof -
  obtain m finished e' where run: "gc_run in_memory_ops sp collapse None budgets 0 e = (Ok (m, finished), e')"
    and safe: "gc_safe imb_valid imb_view sp collapse UNIV e e'"
    and out: "total_versions (imb_view e') + m = total_versions (imb_view e)"
      "finished \<Longrightarrow> imb_view e' = compact_view sp collapse (imb_view e)"
      "total_versions (imb_view e) + card (view_keys (imb_view e)) < length budgets \<Longrightarrow> finished"
    using imb.gc_run_exact [OF assms(1), of budgets sp collapse] assms(2) by blast
  have e': "imb_valid e'" and red: "gc_reduces sp collapse (imb_view e) (imb_view e')"
    using safe by (simp_all add: gc_safe_def)
  have "read in_memory_ops e' k ts = read in_memory_ops e k ts" if "sp \<le> ts" for k ts
    using gc_reduces_visible_value [OF red _ _ that] assms(1) e' imb_reads.valid_view_ok by (simp add: imb.read_eq)
  then show ?thesis
    using run e' out by blast
qed

theorem gc_run_compacts_witness:
  "\<exists>removed e'. gc_run in_memory_ops (Timestamp 20) False None (replicate 5 \<lparr>max_keys = 1, max_versions = 1\<rparr>) 0 ex_two_old =
       (Ok (removed, True), e') \<and> removed = 2 \<and>
     imb_view e' = compact_view (Timestamp 20) False (imb_view ex_two_old)"
proof -
  let ?bs = "replicate 5 \<lparr>max_keys = 1 :: usize, max_versions = 1 :: usize\<rparr>"
  let ?out = "gc_run in_memory_ops (Timestamp 20) False None ?bs 0 ex_two_old"
  have "\<forall>b\<in>set ?bs. budget_ok b"
    by (simp add: budget_ok_def)
  then obtain removed finished e' where run: "?out = (Ok (removed, finished), e')"
    and compact: "finished \<Longrightarrow> imb_view e' = compact_view (Timestamp 20) False (imb_view ex_two_old)"
    using gc_run_compacts [OF ex_two_old_valid, of ?bs "Timestamp 20" False] by blast
  have "map_sum (\<lambda>_. ()) id (fst ?out) = Inr (2, True)"
    by code_simp
  then have "removed = 2" "finished"
    using run by simp_all
  then show ?thesis
    using run compact by simp
qed

section \<open>The planner\<close>

text \<open>
  C32. The planner is sound on the in-memory backend: it rejects a zero budget; otherwise it names distinct versions of the
  key that are older than the newest one at the safe point, at most as many as it may examine; it claims completeness only
  if it names all of them, falls short only with its budget used up, and proposes to collapse only the
  final tombstone of an unlocked key, with a complete plan.
\<close>

theorem plan_key_gc_sound:
  assumes "imb_valid e" and "plan_key_gc in_memory_ops e k sp options = Ok plan"
  shows "max_versions_examined options \<noteq> 0 \<and> plan_key plan = k \<and> distinct (versions_to_remove plan) \<and>
    set (versions_to_remove plan) \<subseteq> obsolete (vers (imb_view e) k) sp \<and>
    length (versions_to_remove plan) \<le> unat (max_versions_examined options) \<and>
    (if plan_complete plan then set (versions_to_remove plan) = obsolete (vers (imb_view e) k) sp
     else length (versions_to_remove plan) = unat (max_versions_examined options)) \<and>
    (plan_collapse plan \<noteq> None \<longrightarrow> plan_complete plan \<and> plan_collapse_final_tombstones options \<and>
       locks (imb_view e) k = None \<and> ends_in_tombstone (vers (imb_view e) k) sp \<and>
       plan_collapse plan = newest_ts (vers (imb_view e) k))"
proof -
  have "max_versions_examined options \<noteq> 0"
    using assms(2) by (auto simp: plan_key_gc_def)
  then show ?thesis
    using imb_contract.plan_key_gc_law [OF assms] by (auto split: if_splits)
qed

definition ex_plan :: "usize \<Rightarrow> bool \<Rightarrow> key_gc_options" where
  "ex_plan n c = \<lparr>max_versions_examined = n, plan_collapse_final_tombstones = c\<rparr>"

theorem plan_key_gc_sound_witness:
  "\<exists>plan. plan_key_gc in_memory_ops ex_updated [1] (Timestamp 9) (ex_plan 4 True) = Ok plan \<and>
     versions_to_remove plan = [Timestamp 5] \<and>
     set (versions_to_remove plan) \<subseteq> obsolete (vers (imb_view ex_updated) [1]) (Timestamp 9)"
proof -
  have "map_sum (\<lambda>_. ()) versions_to_remove
      (plan_key_gc in_memory_ops ex_updated [1] (Timestamp 9) (ex_plan 4 True)) = Inr [Timestamp 5]"
    by code_simp
  then obtain plan where plan: "plan_key_gc in_memory_ops ex_updated [1] (Timestamp 9) (ex_plan 4 True) = Ok plan"
    and "versions_to_remove plan = [Timestamp 5]"
    by (cases "plan_key_gc in_memory_ops ex_updated [1] (Timestamp 9) (ex_plan 4 True)") auto
  then show ?thesis
    using plan_key_gc_sound [OF ex_valid(4) plan] by blast
qed

text \<open>
  Carrying out a plan is safe and, if it is complete, exact: removing the versions it names, and the tombstone it
  collapses, changes no read at or above the safe point, and a complete plan leaves precisely the compacted history of its key.
\<close>

theorem plan_key_gc_compacts:
  assumes "imb_valid e" and "plan_key_gc in_memory_ops e k sp options = Ok plan"
    and "v' = v_remove_versions k (set_option (plan_collapse plan) \<union> set (versions_to_remove plan)) (imb_view e)"
    and "sp \<le> ts"
  shows "visible_value (vers v' k) ts = visible_value (vers (imb_view e) k) ts \<and>
    (plan_complete plan \<longrightarrow>
       vers v' k = compact_history sp (plan_collapse_final_tombstones options) (locks (imb_view e) k \<noteq> None)
         (vers (imb_view e) k))"
proof -
  let ?c = "plan_collapse_final_tombstones options"
  have red: "gc_reduces sp ?c (imb_view e) v'"
    and compact: "plan_complete plan \<Longrightarrow> key_compact sp ?c v' k"
    using imb_contract.plan_key_gc_apply [OF assms(1-3)] by auto
  have ok: "view_ok (imb_view e)"
    by (rule imb_reads.valid_view_ok [OF assms(1)])
  have "view_keys v' \<subseteq> view_keys (imb_view e)"
    by (rule gc_reduces_keys [OF red])
  then have "view_ok v'"
    using ok by (auto simp: view_ok_def assms(3) vers_v_remove_versions intro: finite_subset)
  moreover have "vers v' k = vers (compact_view sp ?c (imb_view e)) k" if "plan_complete plan"
    using compact [OF that] red by (simp add: key_compact_def gc_reduces_def)
  ultimately show ?thesis
    using gc_reduces_visible_value [OF red ok _ assms(4)] unfolding compact_view_vers by blast
qed

theorem plan_key_gc_compacts_witness:
  "\<exists>plan. plan_key_gc in_memory_ops ex_updated [1] (Timestamp 9) (ex_plan 4 True) = Ok plan \<and> plan_complete plan \<and>
     vers (v_remove_versions [1] (set_option (plan_collapse plan) \<union> set (versions_to_remove plan)) (imb_view ex_updated)) [1] =
       compact_history (Timestamp 9) True False (vers (imb_view ex_updated) [1])"
proof -
  have "map_sum (\<lambda>_. ()) plan_complete
      (plan_key_gc in_memory_ops ex_updated [1] (Timestamp 9) (ex_plan 4 True)) = Inr True"
    by code_simp
  then obtain plan where plan: "plan_key_gc in_memory_ops ex_updated [1] (Timestamp 9) (ex_plan 4 True) = Ok plan"
    and "plan_complete plan"
    by (cases "plan_key_gc in_memory_ops ex_updated [1] (Timestamp 9) (ex_plan 4 True)") auto
  then show ?thesis
    using plan_key_gc_compacts [OF ex_valid(4) plan refl order.refl] by (simp add: ex_views ex_plan_def)
qed

text \<open>
  C33. Repeated bounded planning drains a key: planning and carrying out plans of at most \<open>m > 0\<close> versions ends after
  \<open>n div m + 1\<close> rounds, where \<open>n\<close> versions are obsolete. Then the key has exactly its compacted history, no other key and no
  intent has changed, and every read at or above the safe point returns what it returned before.
\<close>

theorem bounded_replanning_drains:
  assumes "imb_valid e" and "max_versions_examined options \<noteq> 0" and "sp \<le> ts"
  shows "\<exists>e'. drain_key in_memory_ops k sp options 0 e =
      Some (Ok (card (obsolete (vers (imb_view e) k) sp) div unat (max_versions_examined options) + 1), e') \<and>
    imb_valid e' \<and> locks (imb_view e') = locks (imb_view e) \<and>
    vers (imb_view e') = (vers (imb_view e))
      (k := compact_history sp (plan_collapse_final_tombstones options) (locks (imb_view e) k \<noteq> None) (vers (imb_view e) k)) \<and>
    (\<forall>j. read in_memory_ops e' j ts = read in_memory_ops e j ts)"
proof -
  let ?c = "plan_collapse_final_tombstones options"
  obtain e' where run: "drain_key in_memory_ops k sp options 0 e =
      Some (Ok (card (obsolete (vers (imb_view e) k) sp) div unat (max_versions_examined options) + 1), e')"
    and safe: "gc_safe imb_valid imb_view sp ?c {k} e e'" and compact: "key_compact sp ?c (imb_view e') k"
    using imb.drain_key_exact [OF assms(1,2), of k sp 0] by auto
  have e': "imb_valid e'" and red: "gc_reduces sp ?c (imb_view e) (imb_view e')"
    and others: "\<And>j. j \<noteq> k \<Longrightarrow> vers (imb_view e') j = vers (imb_view e) j"
    using safe by (simp_all add: gc_safe_def)
  have "vers (imb_view e') k = vers (compact_view sp ?c (imb_view e)) k"
    using compact red by (simp add: key_compact_def gc_reduces_def)
  then have "vers (imb_view e') = (vers (imb_view e))
      (k := compact_history sp ?c (locks (imb_view e) k \<noteq> None) (vers (imb_view e) k))"
    using others by (auto simp: compact_view_vers)
  moreover have "read in_memory_ops e' j ts = read in_memory_ops e j ts" for j
    using gc_reduces_visible_value [OF red _ _ assms(3)] assms(1) e' imb_reads.valid_view_ok by (simp add: imb.read_eq)
  ultimately show ?thesis
    using run e' gc_safe_locks [OF safe] by blast
qed

theorem bounded_replanning_drains_witness:
  "\<exists>e'. drain_key in_memory_ops [1] (Timestamp 9) (ex_plan 1 True) 0 ex_deleted = Some (Ok 2, e') \<and>
     vers (imb_view e') [1] = Map.empty"
proof -
  let ?h = "vers (imb_view ex_deleted) [1]"
  have keeper: "visible ?h (Timestamp 9) = Some (Timestamp 8, None)" and newest: "newest_ts ?h = Some (Timestamp 8)"
    by (simp_all add: visible_Some_iff newest_ts_Some_iff ex_views)
  have "obsolete ?h (Timestamp 9) = {Timestamp 5}"
    using keeper by (auto simp: obsolete_def visible_ts_of_visible ex_views)
  then show ?thesis
    using bounded_replanning_drains [OF ex_valid(3), of "ex_plan 1 True" "Timestamp 9" "Timestamp 9" "[1]"] keeper newest
    by (auto simp: ex_plan_def ex_views compact_history_def ends_in_tombstone_def)
qed

section \<open>What a step asks of the store\<close>

text \<open>
  C28. The calls of a collection step are justified, as the logs of the recording backend show, for all budgets except
  \<open>max_versions = usize::MAX\<close> together with tombstone collapse: a tombstone is collapsed
  only if it is the newest version of an unlocked key and at or below the safe point, and then together with the complete
  older history of the key, as the trait demands; every single removal names a version older than the newest one at the safe
  point; and the calls name exactly as many versions as the step reports removed.
\<close>

theorem gc_step_calls_justified:
  assumes "spy_valid e" and "gc_incremental spy_ops e sp cursor options = (Ok res, e')"
    and "\<not> (max_versions (budget options) = - 1 \<and> collapse_final_tombstones options)"
  shows "\<exists>cs rs. collapse_calls e' = collapse_calls e @ cs \<and> remove_calls e' = remove_calls e @ rs \<and>
    (\<forall>(k, t, older)\<in>set cs. locks (spy_view e) k = None \<and> visible (vers (spy_view e) k) sp = Some (t, None) \<and>
       distinct older \<and> t \<notin> set older \<and> insert t (set older) = dom (vers (spy_view e) k)) \<and>
    (\<forall>(k, t)\<in>set rs. t \<in> obsolete (vers (spy_view e) k) sp) \<and>
    versions_removed res = length rs + sum_list (map (\<lambda>(k, t, older). Suc (length older)) cs)"
proof -
  have fin: "finite (dom (vers (spy_view e) k))" for k
    by (rule spy.finite_vers [OF assms(1)])
  have whole: "distinct older \<and> t \<notin> set older \<and> insert t (set older) = dom (vers (spy_view e) k)"
    if "newest_ts (vers (spy_view e) k) = Some t" "older = older_desc (vers (spy_view e) k) t" for k t older
    using that fin [of k]
    by (auto simp: distinct_older_desc set_older_desc newest_ts_Some_iff order.strict_iff_order)
  obtain cs rs where logs: "collapse_calls e' = collapse_calls e @ cs" "remove_calls e' = remove_calls e @ rs"
    and cs: "\<forall>call\<in>set cs. collapse_justified sp (spy_view e) call"
    and rs: "\<forall>call\<in>set rs. removal_justified sp (spy_view e) call" and n: "versions_removed res = versions_named cs rs"
    using gc_incremental_calls [OF assms(1) _ assms(2)] assms(3)
    by (auto simp: justified_calls_def wrapping_collapse_def)
  have "\<forall>(k, t, older)\<in>set cs. locks (spy_view e) k = None \<and> visible (vers (spy_view e) k) sp = Some (t, None) \<and>
      distinct older \<and> t \<notin> set older \<and> insert t (set older) = dom (vers (spy_view e) k)"
  proof clarify
    fix k t older
    assume "(k, t, older) \<in> set cs"
    then show "locks (spy_view e) k = None \<and> visible (vers (spy_view e) k) sp = Some (t, None) \<and>
        distinct older \<and> t \<notin> set older \<and> insert t (set older) = dom (vers (spy_view e) k)"
      using bspec [OF cs, of "(k, t, older)"] whole by (simp add: collapse_justified_def)
  qed
  moreover have "\<forall>(k, t)\<in>set rs. t \<in> obsolete (vers (spy_view e) k) sp"
    using rs by (simp add: removal_justified_def)
  ultimately show ?thesis
    using logs n [unfolded versions_named_def] by blast
qed

text \<open>The run of the test: a value and a tombstone, collapsed by one step.\<close>

definition ex_spy :: spy_backend where
  "ex_spy = snd (put_committed spy_ops
     (snd (put_committed spy_ops spy_new \<lparr>cv_key = [107, 49], cv_commit_ts = Timestamp 10, cv_value = Some [118]\<rparr>))
     \<lparr>cv_key = [107, 49], cv_commit_ts = Timestamp 20, cv_value = None\<rparr>)"

lemma ex_spy_valid: "spy_valid ex_spy"
proof -
  have new: "spy_valid spy_new"
    by (simp add: spy_valid_def spy_new_def)
  have step: "spy_valid (snd (put_committed spy_ops b c))" if "spy_valid b" for b c
    using spy.put_committed_law [OF that, of c] by (auto simp: atomic_step_def split: prod.splits)
  show ?thesis
    unfolding ex_spy_def by (intro step new)
qed

theorem gc_step_calls_justified_witness:
  "\<exists>res e'. gc_incremental spy_ops ex_spy (Timestamp 25) None (ex_gc 10 10 True) = (Ok res, e') \<and>
     collapse_calls e' = [([107, 49], Timestamp 20, [Timestamp 10])] \<and> versions_removed res = 2 \<and>
     dom (vers (spy_view ex_spy) [107, 49]) = {Timestamp 10, Timestamp 20}"
proof -
  let ?out = "gc_incremental spy_ops ex_spy (Timestamp 25) None (ex_gc 10 10 True)"
  have ok: "budget_ok (budget (ex_gc 10 10 True))"
    by (simp add: budget_ok_def ex_gc_def)
  obtain res e' where run: "?out = (Ok res, e')"
    using spy.gc_incremental_total [OF ex_spy_valid ok] by blast
  have "collapse_calls ex_spy = [] \<and> collapse_calls (snd ?out) = [([107, 49], Timestamp 20, [Timestamp 10])] \<and>
      remove_calls ex_spy = [] \<and> remove_calls (snd ?out) = []"
    by code_simp
  then have logs: "collapse_calls ex_spy = []" "collapse_calls e' = [([107, 49], Timestamp 20, [Timestamp 10])]"
    "remove_calls ex_spy = []" "remove_calls e' = []"
    using run by simp_all
  show ?thesis
    using gc_step_calls_justified [OF ex_spy_valid run] logs run by (auto simp: ex_gc_def)
qed

section \<open>The largest budgets\<close>

text \<open>
  With \<open>max_keys = usize::MAX\<close> the page size \<open>max_keys + 1\<close> wraps to zero: a step looks at no key, removes nothing and
  reports that it is done.
\<close>

theorem max_keys_wrap_stops:
  assumes "imb_valid e" and "max_keys (budget options) = - 1" and "max_versions (budget options) \<noteq> 0"
  shows "gc_incremental in_memory_ops e sp cursor options =
    (Ok \<lparr>gc_cursor = \<lparr>next_key = None\<rparr>, gc_done = True, keys_scanned = 0, versions_scanned = 0,
         versions_removed = 0, intents_preserved = 0\<rparr>, e)"
  using assms by (rule gc_wraps_at_max_keys)

theorem max_keys_wrap_stops_witness:
  "\<exists>res. gc_incremental in_memory_ops ex_updated (Timestamp 9) None (ex_gc (- 1) 1 False) = (Ok res, ex_updated) \<and>
     gc_done res"
  using max_keys_wrap_stops [OF ex_valid(4), of "ex_gc (- 1) 1 False" "Timestamp 9" None]
  by (simp add: ex_gc_def)

lemma final_limit_max:
  assumes "imb_valid e"
  shows "\<exists>acc' e'. gc_key_final in_memory_ops e k (as_version k (kt, x)) (- 1) acc = (Ok (acc', NextKey), e') \<and>
    imb_valid e' \<and> imb_view e' = v_remove_versions k {kt} (imb_view e)"
proof -
  obtain r e' where c: "collapse_tombstone in_memory_ops e k kt [] = (r, e')"
    by fastforce
  have "atomic_step imb_valid imb_view e (r, e') (v_remove_versions k {kt} (imb_view e))" "\<not> isl r"
    using imb_contract.collapse_tombstone_law [OF assms, of k kt "[]"] imb.collapse_tombstone_total [OF assms, of k kt "[]"] c
    by auto
  then show ?thesis
    using c
    by (cases r) (auto simp: gc_key_final_def imb.get_committed_timestamps_before_eq [OF assms] as_version_def
        atomic_step_def unat_gt_0 simp del: in_memory_ops_sel)
qed

text \<open>
  C40. With \<open>max_versions = usize::MAX\<close> and tombstone collapse \<open>limit + 1\<close> wraps to zero, so the older versions are not found and
  the tombstone is removed alone: on a store with the single unlocked key \<open>k\<close> that was last deleted at \<open>kt\<close>, a step reports
  completion and readers above the safe point get back the value the deletion had hidden.
\<close>

theorem max_versions_wrap_resurrects:
  assumes "imb_valid e" and "view_keys (imb_view e) = {k}" and "locks (imb_view e) k = None"
    and "visible (vers (imb_view e) k) sp = Some (kt, None)" and "newest_ts (vers (imb_view e) k) = Some kt"
    and "max_keys (budget options) \<noteq> 0" and "max_keys (budget options) \<noteq> - 1"
    and "max_versions (budget options) = - 1" and "collapse_final_tombstones options" and "sp \<le> ts"
  shows "\<exists>res e'. gc_incremental in_memory_ops e sp None options = (Ok res, e') \<and> gc_done res \<and>
    read in_memory_ops e k ts = Ok None \<and>
    read in_memory_ops e' k ts = Ok (visible_value ((vers (imb_view e) k)(kt := None)) ts)"
proof -
  let ?h = "vers (imb_view e) k" and ?n = "unat (max_keys (budget options))"
  have "\<exists>acc' e'. gc_key in_memory_ops e sp options k gc_acc_zero = (Ok (acc', NextKey), e') \<and>
      imb_valid e' \<and> imb_view e' = v_remove_versions k {kt} (imb_view e)"
    using assms(3-5,8,9) final_limit_max [OF assms(1)]
    by (simp add: gc_key_def gc_key_keeper_def imb.get_intent_eq [OF assms(1)] Let_def gc_acc_zero_def
        imb.get_visible_committed_eq [OF assms(1)] imb.get_latest_commit_ts_eq [OF assms(1)]
        final_tombstone_def as_version_def [of k "(kt, None)"] del: in_memory_ops_sel)
      (simp add: as_version_def)
  then obtain acc' e' where key: "gc_key in_memory_ops e sp options k gc_acc_zero = (Ok (acc', NextKey), e')"
    and e': "imb_valid e'" "imb_view e' = v_remove_versions k {kt} (imb_view e)"
    by blast
  have page: "keys_from in_memory_ops e None (max_keys (budget options) + 1) = Ok [k]"
    using unat_plus_one [OF assms(7)] by (simp add: imb.keys_from_eq [OF assms(1)] v_keys_from_def assms(2)
        del: in_memory_ops_sel)
  have "0 < ?n"
    using assms(6) by (simp add: unat_gt_0)
  then have "\<exists>res. gc_incremental in_memory_ops e sp None options = (Ok res, e') \<and> gc_done res"
    using assms(6,8) by (simp add: gc_incremental_def page key min_def Let_def del: in_memory_ops_sel)
  moreover have "vers (imb_view e') k = ?h(kt := None)"
    by (auto simp: e'(2) vers_v_remove_versions restrict_map_def)
  moreover have "visible_value ?h ts = None"
    using ends_in_tombstone_visible [OF imb_reads.finite_vers [OF assms(1)] _ assms(10)] assms(4,5)
    by (auto simp: ends_in_tombstone_def)
  ultimately show ?thesis
    using imb.read_eq [OF assms(1)] imb.read_eq [OF e'(1)] by auto
qed

theorem max_versions_wrap_resurrects_witness:
  "\<exists>res e'. gc_incremental in_memory_ops ex_deleted (Timestamp 9) None (ex_gc 1 (- 1) True) = (Ok res, e') \<and>
     read in_memory_ops ex_deleted [1] (Timestamp 9) = Ok None \<and>
     read in_memory_ops e' [1] (Timestamp 9) = Ok (Some [7])"
proof -
  have keys: "view_keys (imb_view ex_deleted) = {[1]}"
    by (auto simp: view_keys_def committed_keys_def ex_views split: if_splits)
  have h: "visible (vers (imb_view ex_deleted) [1]) (Timestamp 9) = Some (Timestamp 8, None)"
    "newest_ts (vers (imb_view ex_deleted) [1]) = Some (Timestamp 8)"
    by (simp_all add: visible_Some_iff newest_ts_Some_iff ex_views)
  have "visible ((vers (imb_view ex_deleted) [1])(Timestamp 8 := None)) (Timestamp 9) = Some (Timestamp 5, Some [7])"
    by (subst visible_Some_iff) (simp_all add: ex_views)
  then have "visible_value ((vers (imb_view ex_deleted) [1])(Timestamp 8 := None)) (Timestamp 9) = Some [7]"
    by (simp add: visible_value_def)
  then show ?thesis
    using max_versions_wrap_resurrects [OF ex_valid(3) keys _ h, of "ex_gc 1 (- 1) True" "Timestamp 9"]
    by (auto simp: ex_gc_def ex_views)
qed

end
