(* ===== verification/Rust_Runtime.thy ===== *)
theory Rust_Runtime
  imports Mvcc_Types "HOL-Library.Monad_Syntax"
begin

text \<open>
  What the test suites and the example programs use of the language and its standard library: byte
  string literals, \<open>unwrap\<close>, assertions and indexing, which panic, decimal printing and
  parsing of unsigned integers. A computation that may panic is an option, \<open>None\<close> being the panic.
\<close>

section \<open>Panics\<close>

text \<open>\<open>Result::unwrap\<close>, on the result of a \<open>&self\<close> call and on that of a \<open>&mut self\<close> call.\<close>

fun unwrap :: "'e + 'a \<Rightarrow> 'a option" where
  "unwrap (Inl e) = None"
| "unwrap (Inr x) = Some x"

fun unwrap_mut :: "('e + 'a) \<times> 'b \<Rightarrow> ('a \<times> 'b) option" where
  "unwrap_mut (Inl e, b) = None"
| "unwrap_mut (Inr x, b) = Some (x, b)"

text \<open>The state after a \<open>&mut self\<close> call whose result is unwrapped and dropped.\<close>

definition exec :: "('e + 'a) \<times> 'b \<Rightarrow> 'b option" where
  "exec out = map_option snd (unwrap_mut out)"

definition assert_that :: "bool \<Rightarrow> unit option" where
  "assert_that p = (if p then Some () else None)"

text \<open>\<open>v[i]\<close> of a vector.\<close>

definition vec_index :: "'a list \<Rightarrow> nat \<Rightarrow> 'a option" where
  "vec_index xs i = (if i < length xs then Some (xs ! i) else None)"

text \<open>A \<open>for\<close> loop whose body changes the state or panics.\<close>

fun for_each :: "('a \<Rightarrow> 's \<Rightarrow> 's option) \<Rightarrow> 'a list \<Rightarrow> 's \<Rightarrow> 's option" where
  "for_each f [] s = Some s"
| "for_each f (x # xs) s = f x s \<bind> for_each f xs"

text \<open>
  A computation is \<open>safe\<close> for a postcondition if it ends without a panic in a result that satisfies
  it: total correctness, in the manner of a weakest precondition.
\<close>

definition safe :: "'a option \<Rightarrow> ('a \<Rightarrow> bool) \<Rightarrow> bool" where
  "safe m P \<longleftrightarrow> (\<exists>x. m = Some x \<and> P x)"

lemma safe_Some [simp]: "safe (Some x) P \<longleftrightarrow> P x"
  and safe_None [simp]: "\<not> safe None P"
  by (simp_all add: safe_def)

lemma safe_bind: "safe (m \<bind> f) P \<longleftrightarrow> safe m (\<lambda>x. safe (f x) P)"
  by (cases m) (auto simp: safe_def)

lemma safe_mono: "safe m P \<Longrightarrow> (\<And>x. P x \<Longrightarrow> Q x) \<Longrightarrow> safe m Q"
  by (auto simp: safe_def)

lemma safe_assert [simp]: "safe (assert_that p) P \<longleftrightarrow> p \<and> P ()"
  by (simp add: assert_that_def)

lemma safe_for_each:
  assumes "\<And>x s. x \<in> set xs \<Longrightarrow> I s \<Longrightarrow> safe (f x s) I" and "I s"
  shows "safe (for_each f xs s) I"
  using assms
proof (induction xs arbitrary: s)
  case (Cons x xs)
  then have "safe (f x s) I"
    by simp
  then show ?case
    using Cons by (auto simp: safe_bind intro: safe_mono)
qed simp

lemma exec_Ok [simp]: "exec (Inr x, b) = Some b"
  and exec_Err [simp]: "exec (Inl e, b) = None"
  by (simp_all add: exec_def)

section \<open>Byte strings\<close>

text \<open>\<open>b"..."\<close>, and \<open>into_bytes\<close> of an ASCII string.\<close>

definition ascii :: "string \<Rightarrow> u8 list" where
  "ascii s = map of_char s"

section \<open>Decimal numbers\<close>

text \<open>Decimal digits, as \<open>format!\<close> and \<open>to_string\<close> print an unsigned integer.\<close>

fun show_nat :: "nat \<Rightarrow> string" where
  "show_nat n =
     (if n < 10 then [char_of (48 + n)] else show_nat (n div 10) @ [char_of (48 + n mod 10)])"

declare show_nat.simps [simp del]

definition show_u8 :: "u8 \<Rightarrow> string" where
  "show_u8 b = show_nat (unat b)"

text \<open>\<open>format!("{n:0w}")\<close>: padded with zeros on the left.\<close>

definition pad_zeros :: "nat \<Rightarrow> string \<Rightarrow> string" where
  "pad_zeros w s = replicate (w - length s) (CHR ''0'') @ s"

section \<open>Text\<close>

text \<open>
  A \<open>String\<close> is represented by its bytes. \<open>String::from_utf8\<close> accepts the well-formed UTF-8 sequences:
  no overlong forms, no surrogates, nothing above U+10FFFF.
\<close>

definition in_bytes :: "u8 \<Rightarrow> u8 \<Rightarrow> u8 \<Rightarrow> bool" where
  "in_bytes lo hi b \<longleftrightarrow> lo \<le> b \<and> b \<le> hi"

definition utf8_second :: "u8 \<Rightarrow> u8 \<Rightarrow> bool" where
  "utf8_second b0 b1 \<longleftrightarrow>
     (if b0 = 0xE0 then in_bytes 0xA0 0xBF b1
      else if b0 = 0xED then in_bytes 0x80 0x9F b1
      else if b0 = 0xF0 then in_bytes 0x90 0xBF b1
      else if b0 = 0xF4 then in_bytes 0x80 0x8F b1
      else in_bytes 0x80 0xBF b1)"

fun utf8_ok :: "u8 list \<Rightarrow> bool" where
  "utf8_ok [] = True"
| "utf8_ok (b0 # bs) =
     (if b0 < 0x80 then utf8_ok bs
      else if in_bytes 0xC2 0xDF b0 then
        (case bs of b1 # rest \<Rightarrow> utf8_second b0 b1 \<and> utf8_ok rest | _ \<Rightarrow> False)
      else if in_bytes 0xE0 0xEF b0 then
        (case bs of b1 # b2 # rest \<Rightarrow> utf8_second b0 b1 \<and> in_bytes 0x80 0xBF b2 \<and> utf8_ok rest | _ \<Rightarrow> False)
      else if in_bytes 0xF0 0xF4 b0 then
        (case bs of
           b1 # b2 # b3 # rest \<Rightarrow>
             utf8_second b0 b1 \<and> in_bytes 0x80 0xBF b2 \<and> in_bytes 0x80 0xBF b3 \<and> utf8_ok rest
         | _ \<Rightarrow> False)
      else False)"

definition from_utf8 :: "u8 list \<Rightarrow> u8 list option" where
  "from_utf8 bs = (if utf8_ok bs then Some bs else None)"

text \<open>
  \<open>str::parse::<u64>\<close>: an optional plus sign, then at least one decimal digit and nothing else, with a
  check for overflow at every digit.
\<close>

definition is_digit :: "u8 \<Rightarrow> bool" where
  "is_digit b \<longleftrightarrow> 48 \<le> b \<and> b \<le> 57"

fun parse_digits :: "nat \<Rightarrow> u8 list \<Rightarrow> nat option" where
  "parse_digits acc [] = Some acc"
| "parse_digits acc (b # bs) =
     (if is_digit b \<and> acc * 10 + (unat b - 48) < 2 ^ 64
      then parse_digits (acc * 10 + (unat b - 48)) bs else None)"

definition parse_u64 :: "u8 list \<Rightarrow> u64 option" where
  "parse_u64 bs =
     map_option of_nat
       (case bs of
          [] \<Rightarrow> None
        | b # rest \<Rightarrow>
            if b = 43 then (if rest = [] then None else parse_digits 0 rest)
            else parse_digits 0 bs)"

text \<open>Addition of one with the overflow check of a debug build.\<close>

definition checked_inc :: "u64 \<Rightarrow> u64 option" where
  "checked_inc n = (if n = - 1 then None else Some (n + 1))"

section \<open>Facts about decimal numbers\<close>

lemma show_nat_not_Nil [simp]: "show_nat n \<noteq> []"
  by (subst show_nat.simps) simp

text \<open>What \<open>to_string\<close> prints consists of digits, and parsing it returns the number.\<close>

lemma ascii_append [simp]: "ascii (s @ t) = ascii s @ ascii t"
  by (simp add: ascii_def)

lemma ascii_digit:
  assumes "d < 10"
  shows "ascii [char_of (48 + d)] = [of_nat (48 + d)]"
proof -
  have "\<forall>d\<in>set [0..<10]. ascii [char_of (48 + d)] = [of_nat (48 + d)]"
    by code_simp
  with assms show ?thesis
    by simp
qed

lemma digit_byte:
  assumes "d < 10"
  shows "is_digit (of_nat (48 + d))" and "unat (of_nat (48 + d) :: u8) - 48 = d"
    and "(of_nat (48 + d) :: u8) \<noteq> 43"
proof -
  have "\<forall>d\<in>set [0..<10]. is_digit (of_nat (48 + d)) \<and> unat (of_nat (48 + d) :: u8) - 48 = d \<and>
      (of_nat (48 + d) :: u8) \<noteq> 43"
    by code_simp
  with assms show "is_digit (of_nat (48 + d))" "unat (of_nat (48 + d) :: u8) - 48 = d"
    "(of_nat (48 + d) :: u8) \<noteq> 43"
    by simp_all
qed

lemma ascii_show_nat_step:
  "ascii (show_nat n) =
     (if n < 10 then [of_nat (48 + n)] else ascii (show_nat (n div 10)) @ [of_nat (48 + n mod 10)])"
  by (subst show_nat.simps) (simp add: ascii_digit del: of_nat_add)

lemma parse_digits_append:
  "parse_digits acc (bs @ cs) = Option.bind (parse_digits acc bs) (\<lambda>n. parse_digits n cs)"
  by (induction acc bs rule: parse_digits.induct) auto

lemma parse_digits_show_nat: "n < 2 ^ 64 \<Longrightarrow> parse_digits 0 (ascii (show_nat n)) = Some n"
proof (induction n rule: show_nat.induct)
  case (1 n)
  show ?case
  proof (cases "n < 10")
    case True
    with 1(2) show ?thesis
      by (subst ascii_show_nat_step) (simp add: digit_byte del: of_nat_add)
  next
    case False
    with 1 have "parse_digits 0 (ascii (show_nat (n div 10))) = Some (n div 10)"
      by simp
    with False 1(2) show ?thesis
      by (subst ascii_show_nat_step)
        (simp add: digit_byte parse_digits_append del: of_nat_add)
  qed
qed

lemma hd_ascii_show_nat: "\<exists>d rest. d < 10 \<and> ascii (show_nat n) = of_nat (48 + d) # rest"
proof (induction n rule: show_nat.induct)
  case (1 n)
  show ?case
  proof (cases "n < 10")
    case True
    then show ?thesis
      by (subst ascii_show_nat_step) (auto simp del: of_nat_add)
  next
    case False
    then show ?thesis
      using 1 by (subst ascii_show_nat_step) (auto simp del: of_nat_add)
  qed
qed

lemma parse_u64_to_string: "parse_u64 (ascii (show_nat (unat n))) = Some n"
proof -
  obtain d rest where "d < 10" "ascii (show_nat (unat n)) = of_nat (48 + d) # rest"
    using hd_ascii_show_nat by blast
  moreover have "unat n < 2 ^ 64"
    using unsigned_less [of n, where ?'a = nat] by simp
  ultimately show ?thesis
    using parse_digits_show_nat [of "unat n"] digit_byte(3) [of d]
    by (simp add: parse_u64_def del: of_nat_add parse_digits.simps)
qed

lemma utf8_ok_ascii: "list_all (\<lambda>b. b < 0x80) bs \<Longrightarrow> utf8_ok bs"
  by (induction bs) auto

lemma digit_ascii: "is_digit b \<Longrightarrow> b < 0x80"
  by (auto simp: is_digit_def intro: le_less_trans)

lemma parse_digits_ascii: "parse_digits acc bs = Some n \<Longrightarrow> list_all (\<lambda>b. b < 0x80) bs"
  by (induction acc bs rule: parse_digits.induct)
    (auto split: if_splits intro: digit_ascii)

text \<open>What parses as a number is ASCII, so it is also UTF-8.\<close>

lemma parse_u64_utf8: "parse_u64 bs = Some n \<Longrightarrow> from_utf8 bs = Some bs"
  by (auto simp: parse_u64_def from_utf8_def split: list.splits if_splits
      dest!: parse_digits_ascii intro!: utf8_ok_ascii digit_ascii simp del: utf8_ok.simps)

lemma parse_u64_non_digit:
  "\<not> is_digit b \<Longrightarrow> b \<noteq> 43 \<Longrightarrow> parse_u64 (b # bs) = None"
  by (simp add: parse_u64_def)

text \<open>Different numbers print differently, also when padded to a width both fit in.\<close>

lemma show_nat_inject: "m < 2 ^ 64 \<Longrightarrow> n < 2 ^ 64 \<Longrightarrow> show_nat m = show_nat n \<longleftrightarrow> m = n"
  by (metis option.inject parse_digits_show_nat)

lemma parse_digits_zeros: "parse_digits 0 (replicate n 48 @ bs) = parse_digits 0 bs"
  by (induction n) (simp_all add: is_digit_def)

lemma ascii_pad_zeros: "ascii (pad_zeros w s) = replicate (w - length s) 48 @ ascii s"
proof -
  have "ascii (replicate n (CHR ''0'')) = replicate n 48" for n
    by (simp add: ascii_def map_replicate_const)
  then show ?thesis
    by (simp add: pad_zeros_def)
qed

lemma padded_inject:
  assumes "m < 2 ^ 64" and "n < 2 ^ 64"
  shows "ascii (pad_zeros w (show_nat m)) = ascii (pad_zeros w (show_nat n)) \<longleftrightarrow> m = n"
  using assms by (metis ascii_pad_zeros option.inject parse_digits_show_nat parse_digits_zeros)

end
