(* ===== verification/Mvcc_Codec.thy ===== *)
theory Mvcc_Codec
  imports Mvcc_Errors Rust_Runtime "HOL-Library.Sublist"
begin

text \<open>
  The record codec of \<open>codec.rs\<close>. Encoders append to a byte buffer or fail with a \<open>CodecError\<close>;
  decoders walk a buffer with an offset. A decoder's result is an option over \<open>Result\<close>: \<open>None\<close> is
  a panic (an index or a slice out of range), which is shown never to happen.
\<close>

section \<open>Bytes of integers\<close>

text \<open>\<open>to_be_bytes\<close> and \<open>from_be_bytes\<close>: digits to the base 256, the most significant first.\<close>

fun to_be_bytes :: "nat \<Rightarrow> nat \<Rightarrow> u8 list" where
  "to_be_bytes 0 n = []"
| "to_be_bytes (Suc w) n = to_be_bytes w (n div 256) @ [of_nat (n mod 256)]"

definition from_be_bytes :: "u8 list \<Rightarrow> nat" where
  "from_be_bytes bs = foldl (\<lambda>a b. a * 256 + unat b) 0 bs"

section \<open>Results that may panic\<close>

type_synonym 'a decoded = "(codec_error + 'a) option"

definition decode_error :: "string \<Rightarrow> 'a decoded" where
  "decode_error msg = Some (Err (codec_error.Decode msg))"

fun dec_bind :: "'a decoded \<Rightarrow> ('a \<Rightarrow> 'b decoded) \<Rightarrow> 'b decoded" where
  "dec_bind None f = None"
| "dec_bind (Some (Inl e)) f = Some (Inl e)"
| "dec_bind (Some (Inr x)) f = f x"

text \<open>\<open>buf[i]\<close> and \<open>buf[a..b]\<close>, which panic out of range.\<close>

definition index :: "u8 list \<Rightarrow> nat \<Rightarrow> u8 decoded" where
  "index buf i = (if i < length buf then Some (Ok (buf ! i)) else None)"

definition slice :: "u8 list \<Rightarrow> nat \<Rightarrow> nat \<Rightarrow> u8 list decoded" where
  "slice buf a b = (if a \<le> b \<and> b \<le> length buf then Some (Ok (take (b - a) (drop a buf))) else None)"

fun index_all :: "u8 list \<Rightarrow> nat list \<Rightarrow> u8 list decoded" where
  "index_all buf [] = Some (Ok [])"
| "index_all buf (i # is) =
     dec_bind (index buf i) (\<lambda>b. dec_bind (index_all buf is) (\<lambda>bs. Some (Ok (b # bs))))"

section \<open>Constants\<close>

definition CODEC_VERSION :: u8 where "CODEC_VERSION = 0x02"
definition RECORD_COMMITTED :: u8 where "RECORD_COMMITTED = 0x01"
definition RECORD_INTENT :: u8 where "RECORD_INTENT = 0x02"
definition FLAG_PRESENT :: u8 where "FLAG_PRESENT = 0x01"
definition FLAG_ABSENT :: u8 where "FLAG_ABSENT = 0x00"
definition MUTATION_PUT :: u8 where "MUTATION_PUT = 0x01"
definition MUTATION_DELETE :: u8 where "MUTATION_DELETE = 0x02"

section \<open>Fields\<close>

definition encode_u32 :: "u32 \<Rightarrow> u8 list" where
  "encode_u32 v = to_be_bytes 4 (unat v)"

definition decode_u32 :: "u8 list \<Rightarrow> nat \<Rightarrow> (u32 \<times> nat) decoded" where
  "decode_u32 buf offset =
     (if length buf < offset + 4 then decode_error ''truncated u32''
      else dec_bind (index_all buf [offset, offset + 1, offset + 2, offset + 3]) (\<lambda>bs.
             Some (Ok (of_nat (from_be_bytes bs), offset + 4))))"

definition encode_u64 :: "u64 \<Rightarrow> u8 list" where
  "encode_u64 v = to_be_bytes 8 (unat v)"

definition decode_u64 :: "u8 list \<Rightarrow> nat \<Rightarrow> (u64 \<times> nat) decoded" where
  "decode_u64 buf offset =
     (if length buf < offset + 8 then decode_error ''truncated u64''
      else dec_bind (index_all buf [offset, offset + 1, offset + 2, offset + 3,
                                    offset + 4, offset + 5, offset + 6, offset + 7]) (\<lambda>bs.
             Some (Ok (of_nat (from_be_bytes bs), offset + 8))))"

definition encode_u128 :: "u128 \<Rightarrow> u8 list" where
  "encode_u128 v = to_be_bytes 16 (unat v)"

definition decode_u128 :: "u8 list \<Rightarrow> nat \<Rightarrow> (u128 \<times> nat) decoded" where
  "decode_u128 buf offset =
     (if length buf < offset + 16 then decode_error ''truncated u128''
      else dec_bind (slice buf offset (offset + 16)) (\<lambda>bytes.
             if length bytes \<noteq> 16 then decode_error ''truncated u128''
             else Some (Ok (of_nat (from_be_bytes bytes), offset + 16))))"

definition encode_bytes :: "u8 list \<Rightarrow> u8 list \<Rightarrow> codec_error + u8 list" where
  "encode_bytes buf bytes =
     (if length bytes < 2 ^ 32 then Ok (buf @ encode_u32 (of_nat (length bytes)) @ bytes)
      else Err (codec_error.Encode ''byte slice too long''))"

definition decode_bytes :: "u8 list \<Rightarrow> nat \<Rightarrow> (u8 list \<times> nat) decoded" where
  "decode_bytes buf offset =
     dec_bind (decode_u32 buf offset) (\<lambda>(len, offset).
       if length buf < offset + unat len then decode_error ''truncated byte slice''
       else dec_bind (slice buf offset (offset + unat len)) (\<lambda>bytes.
              Some (Ok (bytes, offset + unat len))))"

text \<open>A single byte behind a length check, as both decoders read flags and record types.\<close>

definition decode_byte :: "string \<Rightarrow> u8 list \<Rightarrow> nat \<Rightarrow> (u8 \<times> nat) decoded" where
  "decode_byte msg buf offset =
     (if length buf < offset + 1 then decode_error msg
      else dec_bind (index buf offset) (\<lambda>b. Some (Ok (b, offset + 1))))"

section \<open>Committed versions\<close>

definition encode_committed :: "committed_version \<Rightarrow> codec_error + u8 list" where
  "encode_committed version =
     res_bind (encode_bytes [CODEC_VERSION, RECORD_COMMITTED] (cv_key version)) (\<lambda>buf.
       let buf = buf @ encode_u128 (ts_val (cv_commit_ts version)) in
       case cv_value version of
         Some v \<Rightarrow> encode_bytes (buf @ [FLAG_PRESENT]) v
       | None \<Rightarrow> Ok (buf @ [FLAG_ABSENT]))"

text \<open>The two header bytes, common to both record types but for the expected type and its name.\<close>

definition decode_header :: "u8 \<Rightarrow> string \<Rightarrow> u8 list \<Rightarrow> nat decoded" where
  "decode_header record_type type_name buf =
     (if buf = [] then decode_error ''empty buffer''
      else dec_bind (index buf 0) (\<lambda>version.
        if version \<noteq> CODEC_VERSION then decode_error (''unknown codec version '' @ show_u8 version)
        else dec_bind (decode_byte ''missing record type'' buf 1) (\<lambda>(found, offset).
          if found \<noteq> record_type
          then decode_error (''expected '' @ type_name @ '' record type '' @ show_u8 record_type @
                             '', got '' @ show_u8 found)
          else Some (Ok offset))))"

definition decode_value :: "u8 list \<Rightarrow> nat \<Rightarrow> (val option \<times> nat) decoded" where
  "decode_value buf offset =
     dec_bind (decode_byte ''missing value flag'' buf offset) (\<lambda>(flag, offset).
       if flag = FLAG_PRESENT
       then dec_bind (decode_bytes buf offset) (\<lambda>(v, offset). Some (Ok (Some v, offset)))
       else if flag = FLAG_ABSENT then Some (Ok (None, offset))
       else decode_error (''unknown value flag '' @ show_u8 flag))"

definition decode_committed :: "u8 list \<Rightarrow> committed_version decoded" where
  "decode_committed buf =
     dec_bind (decode_header RECORD_COMMITTED ''committed'' buf) (\<lambda>offset.
     dec_bind (decode_bytes buf offset) (\<lambda>(key, offset).
     dec_bind (decode_u128 buf offset) (\<lambda>(commit_ts, offset).
     dec_bind (decode_value buf offset) (\<lambda>(value, offset).
       if offset \<noteq> length buf then decode_error ''trailing garbage''
       else Some (Ok \<lparr>cv_key = key, cv_commit_ts = Timestamp commit_ts, cv_value = value\<rparr>)))))"

section \<open>Intents\<close>

definition encode_intent :: "intent \<Rightarrow> codec_error + u8 list" where
  "encode_intent i =
     res_bind (encode_bytes [CODEC_VERSION, RECORD_INTENT] (intent_key i)) (\<lambda>buf.
       let buf = buf @ encode_u64 (txn_val (intent_txn_id i));
           buf = buf @ encode_u128 (ts_val (intent_start_ts i));
           buf = (case intent_min_commit_ts i of
                    Some ts \<Rightarrow> (buf @ [FLAG_PRESENT]) @ encode_u128 (ts_val ts)
                  | None \<Rightarrow> buf @ [FLAG_ABSENT])
       in case intent_mutation i of
            Put v \<Rightarrow> encode_bytes (buf @ [MUTATION_PUT]) v
          | Delete \<Rightarrow> Ok (buf @ [MUTATION_DELETE]))"

definition decode_min_commit_ts :: "u8 list \<Rightarrow> nat \<Rightarrow> (timestamp option \<times> nat) decoded" where
  "decode_min_commit_ts buf offset =
     dec_bind (decode_byte ''missing min_commit_ts flag'' buf offset) (\<lambda>(flag, offset).
       if flag = FLAG_PRESENT
       then dec_bind (decode_u128 buf offset) (\<lambda>(ts, offset). Some (Ok (Some (Timestamp ts), offset)))
       else if flag = FLAG_ABSENT then Some (Ok (None, offset))
       else decode_error (''unknown min_commit_ts flag '' @ show_u8 flag))"

definition decode_mutation :: "u8 list \<Rightarrow> nat \<Rightarrow> (mutation \<times> nat) decoded" where
  "decode_mutation buf offset =
     dec_bind (decode_byte ''missing mutation type'' buf offset) (\<lambda>(mutation_type, offset).
       if mutation_type = MUTATION_PUT
       then dec_bind (decode_bytes buf offset) (\<lambda>(v, offset). Some (Ok (Put v, offset)))
       else if mutation_type = MUTATION_DELETE then Some (Ok (Delete, offset))
       else decode_error (''unknown mutation type '' @ show_u8 mutation_type))"

definition decode_intent :: "u8 list \<Rightarrow> intent decoded" where
  "decode_intent buf =
     dec_bind (decode_header RECORD_INTENT ''intent'' buf) (\<lambda>offset.
     dec_bind (decode_bytes buf offset) (\<lambda>(key, offset).
     dec_bind (decode_u64 buf offset) (\<lambda>(txn_id, offset).
     dec_bind (decode_u128 buf offset) (\<lambda>(start_ts, offset).
     dec_bind (decode_min_commit_ts buf offset) (\<lambda>(min_commit_ts, offset).
     dec_bind (decode_mutation buf offset) (\<lambda>(mutation, offset).
       if offset \<noteq> length buf then decode_error ''trailing garbage''
       else Some (Ok \<lparr>intent_key = key, intent_txn_id = TxnId txn_id,
                      intent_start_ts = Timestamp start_ts, intent_mutation = mutation,
                      intent_min_commit_ts = min_commit_ts\<rparr>)))))))"

section \<open>Digits\<close>

lemma length_to_be_bytes [simp]: "length (to_be_bytes w n) = w"
  by (induction w arbitrary: n) auto

lemma from_be_bytes_append: "from_be_bytes (bs @ [b]) = from_be_bytes bs * 256 + unat b"
  by (simp add: from_be_bytes_def)

lemma unat_byte_less: "unat (b :: u8) < 256"
  using unsigned_less [of b] by simp

lemma from_be_bytes_less: "from_be_bytes bs < 256 ^ length bs"
proof (induction bs rule: rev_induct)
  case Nil
  then show ?case
    by (simp add: from_be_bytes_def)
next
  case (snoc b bs)
  have "from_be_bytes bs * 256 + unat b < (from_be_bytes bs + 1) * 256"
    using unat_byte_less [of b] by simp
  also have "\<dots> \<le> 256 ^ length bs * 256"
    using snoc by (intro mult_right_mono) auto
  finally show ?case
    by (simp add: from_be_bytes_append mult.commute)
qed

lemma from_to_be_bytes: "n < 256 ^ w \<Longrightarrow> from_be_bytes (to_be_bytes w n) = n"
proof (induction w arbitrary: n)
  case 0
  then show ?case
    by (simp add: from_be_bytes_def)
next
  case (Suc w)
  have "n div 256 < 256 ^ w"
    using Suc.prems by (simp add: less_mult_imp_div_less mult.commute)
  then show ?case
    using Suc.IH by (simp add: from_be_bytes_append unat_of_nat)
qed

lemma to_from_be_bytes: "to_be_bytes (length bs) (from_be_bytes bs) = bs"
proof (induction bs rule: rev_induct)
  case (snoc b bs)
  have "(from_be_bytes bs * 256 + unat b) div 256 = from_be_bytes bs"
    using unat_byte_less [of b] by simp
  moreover have "(from_be_bytes bs * 256 + unat b) mod 256 = unat b"
    using unat_byte_less [of b] by simp
  ultimately show ?case
    using snoc by (simp add: from_be_bytes_append)
qed simp

text \<open>A word of \<open>8 * w\<close> bits and its \<open>w\<close> bytes determine each other.\<close>

lemma be_bytes_iff:
  fixes v :: "'l::len word"
  assumes "LENGTH('l) = 8 * w" and "length bs = w"
  shows "of_nat (from_be_bytes bs) = v \<longleftrightarrow> bs = to_be_bytes w (unat v)"
proof
  have p: "(256::nat) ^ w = 2 ^ LENGTH('l)"
    by (simp add: assms(1) power_mult)
  assume "of_nat (from_be_bytes bs) = v"
  then have "unat v = from_be_bytes bs"
    using from_be_bytes_less [of bs] assms(2) p by (auto simp: unat_of_nat)
  then show "bs = to_be_bytes w (unat v)"
    using to_from_be_bytes [of bs] assms(2) by simp
next
  have "unat v < 256 ^ w"
    using unsigned_less [of v] by (simp add: assms(1) power_mult)
  moreover assume "bs = to_be_bytes w (unat v)"
  ultimately show "of_nat (from_be_bytes bs) = v"
    using from_to_be_bytes by simp
qed

section \<open>The contract of a field\<close>

lemma dec_bind_Ok: "dec_bind r f = Some (Inr y) \<longleftrightarrow> (\<exists>x. r = Some (Inr x) \<and> f x = Some (Inr y))"
  by (cases r rule: option.exhaust; cases "the r") auto

lemma dec_bind_None: "dec_bind r f = None \<longleftrightarrow> r = None \<or> (\<exists>x. r = Some (Inr x) \<and> f x = None)"
  by (cases r rule: option.exhaust; cases "the r") auto

declare decode_error_def [simp]

text \<open>
  A field has an encoding \<open>enc\<close> for the values that satisfy \<open>ok\<close>; its decoder succeeds with \<open>x\<close> exactly on the
  encoding of \<open>x\<close>, consumes that and nothing else, and never panics.
\<close>

locale field_codec =
  fixes enc :: "'a \<Rightarrow> u8 list"
    and ok :: "'a \<Rightarrow> bool"
    and dec :: "u8 list \<Rightarrow> nat \<Rightarrow> ('a \<times> nat) decoded"
  assumes dec_at:
      "dec (pre @ s) (length pre) = Some (Inr (x, off)) \<longleftrightarrow>
       ok x \<and> off = length (pre @ enc x) \<and> prefix (enc x) s"
    and dec_no_panic: "dec (pre @ s) (length pre) \<noteq> None"
begin

lemma dec_step:
  "dec_bind (dec (pre @ s) (length pre)) f = Some (Inr y) \<longleftrightarrow>
   (\<exists>x rest. ok x \<and> s = enc x @ rest \<and> f (x, length (pre @ enc x)) = Some (Inr y))"
  by (auto simp: dec_bind_Ok dec_at prefix_def)

lemma dec_step_no_panic:
  assumes "\<And>x rest. s = enc x @ rest \<Longrightarrow> f (x, length (pre @ enc x)) \<noteq> None"
  shows "dec_bind (dec (pre @ s) (length pre)) f \<noteq> None"
  using assms dec_no_panic by (auto simp: dec_bind_None dec_at prefix_def)

end

lemma index_all_eq:
  "\<forall>i\<in>set is. i < length buf \<Longrightarrow> index_all buf is = Some (Ok (map ((!) buf) is))"
  by (induction "is") (auto simp: index_def)

lemma index_all_run:
  assumes "n \<le> length s"
  shows "index_all (pre @ s) (map ((+) (length pre)) [0..<n]) = Some (Ok (take n s))"
proof -
  have "map ((!) (pre @ s)) (map ((+) (length pre)) [0..<n]) = take n s"
    using assms by (intro nth_equalityI) auto
  then show ?thesis
    using assms by (subst index_all_eq) auto
qed

lemma prefix_take_iff: "prefix p s \<longleftrightarrow> length p \<le> length s \<and> take (length p) s = p"
  by (metis append_eq_conv_conj prefix_def prefix_length_le append_take_drop_id)

lemma int_field_at:
  fixes v :: "'l::len word"
  assumes "LENGTH('l) = 8 * w" and "w \<le> length s"
  shows "of_nat (from_be_bytes (take w s)) = v \<longleftrightarrow> prefix (to_be_bytes w (unat v)) s"
  using be_bytes_iff [OF assms(1), of "take w s" v] assms(2) by (simp add: prefix_take_iff)

lemma int_field_short: "length s < w \<Longrightarrow> \<not> prefix (to_be_bytes w n) s"
  by (auto simp: prefix_take_iff)

lemma length_encode_ints [simp]:
  "length (encode_u32 v) = 4" "length (encode_u64 x) = 8" "length (encode_u128 y) = 16"
  by (simp_all add: encode_u32_def encode_u64_def encode_u128_def)

lemma decode_u32_cases:
  "decode_u32 (pre @ s) (length pre) =
     (if length s < 4 then decode_error ''truncated u32''
      else Some (Ok (of_nat (from_be_bytes (take 4 s)), length pre + 4)))"
  using index_all_run [of 4 s pre] by (simp add: decode_u32_def eval_nat_numeral del: index_all.simps)

lemma decode_u64_cases:
  "decode_u64 (pre @ s) (length pre) =
     (if length s < 8 then decode_error ''truncated u64''
      else Some (Ok (of_nat (from_be_bytes (take 8 s)), length pre + 8)))"
  using index_all_run [of 8 s pre] by (simp add: decode_u64_def eval_nat_numeral del: index_all.simps)

lemma decode_u128_cases:
  "decode_u128 (pre @ s) (length pre) =
     (if length s < 16 then decode_error ''truncated u128''
      else Some (Ok (of_nat (from_be_bytes (take 16 s)), length pre + 16)))"
  by (simp add: decode_u128_def slice_def)

interpretation u32_field: field_codec encode_u32 "\<lambda>_. True" decode_u32
  by unfold_locales
    (auto simp: decode_u32_cases encode_u32_def int_field_at [symmetric] int_field_short)

interpretation u64_field: field_codec encode_u64 "\<lambda>_. True" decode_u64
  by unfold_locales
    (auto simp: decode_u64_cases encode_u64_def int_field_at [symmetric] int_field_short)

interpretation u128_field: field_codec encode_u128 "\<lambda>_. True" decode_u128
  by unfold_locales
    (auto simp: decode_u128_cases encode_u128_def int_field_at [symmetric] int_field_short)

text \<open>Length-prefixed bytes.\<close>

definition fits_u32 :: "u8 list \<Rightarrow> bool" where
  "fits_u32 bs \<longleftrightarrow> length bs < 2 ^ 32"

definition bytes_enc :: "u8 list \<Rightarrow> u8 list" where
  "bytes_enc bs = encode_u32 (of_nat (length bs)) @ bs"

interpretation bytes_field: field_codec bytes_enc fits_u32 decode_bytes
proof
  fix pre s x off
  have "decode_bytes (pre @ s) (length pre) = Some (Inr (x, off)) \<longleftrightarrow>
      (\<exists>len rest. s = encode_u32 len @ rest \<and> unat len \<le> length rest \<and> x = take (unat len) rest \<and>
         off = length pre + 4 + unat len)"
    by (auto simp: decode_bytes_def u32_field.dec_step slice_def not_less)
  also have "\<dots> \<longleftrightarrow> fits_u32 x \<and> off = length (pre @ bytes_enc x) \<and> prefix (bytes_enc x) s"
  proof
    assume "\<exists>len rest. s = encode_u32 len @ rest \<and> unat len \<le> length rest \<and> x = take (unat len) rest \<and>
         off = length pre + 4 + unat len"
    then obtain len rest where s: "s = encode_u32 len @ rest" "unat len \<le> length rest"
      "x = take (unat len) rest" "off = length pre + 4 + unat len"
      by blast
    then have "length x = unat len"
      by simp
    then show "fits_u32 x \<and> off = length (pre @ bytes_enc x) \<and> prefix (bytes_enc x) s"
      using s unsigned_less [of len] by (simp add: fits_u32_def bytes_enc_def take_is_prefix)
  next
    assume "fits_u32 x \<and> off = length (pre @ bytes_enc x) \<and> prefix (bytes_enc x) s"
    then show "\<exists>len rest. s = encode_u32 len @ rest \<and> unat len \<le> length rest \<and> x = take (unat len) rest \<and>
         off = length pre + 4 + unat len"
      by (intro exI [of _ "of_nat (length x)"])
        (auto simp: fits_u32_def bytes_enc_def prefix_def unat_of_nat)
  qed
  finally show "decode_bytes (pre @ s) (length pre) = Some (Inr (x, off)) \<longleftrightarrow>
      fits_u32 x \<and> off = length (pre @ bytes_enc x) \<and> prefix (bytes_enc x) s" .
next
  fix pre s
  show "decode_bytes (pre @ s) (length pre) \<noteq> None"
    unfolding decode_bytes_def by (rule u32_field.dec_step_no_panic) (simp add: slice_def)
qed

text \<open>Single bytes, and the three fields that start with a tag byte.\<close>

lemma decode_byte_cases:
  "decode_byte msg (pre @ s) (length pre) =
     (case s of [] \<Rightarrow> decode_error msg | b # _ \<Rightarrow> Some (Ok (b, Suc (length pre))))"
  by (auto simp: decode_byte_def index_def nth_append split: list.splits)

interpretation byte_field: field_codec "\<lambda>b. [b]" "\<lambda>_. True" "decode_byte msg" for msg
  by unfold_locales (auto simp: decode_byte_cases prefix_def split: list.splits)

definition value_enc :: "val option \<Rightarrow> u8 list" where
  "value_enc x = (case x of Some v \<Rightarrow> FLAG_PRESENT # bytes_enc v | None \<Rightarrow> [FLAG_ABSENT])"

definition value_fits :: "val option \<Rightarrow> bool" where
  "value_fits x = (case x of Some v \<Rightarrow> fits_u32 v | None \<Rightarrow> True)"

definition min_commit_ts_enc :: "timestamp option \<Rightarrow> u8 list" where
  "min_commit_ts_enc x =
     (case x of Some ts \<Rightarrow> FLAG_PRESENT # encode_u128 (ts_val ts) | None \<Rightarrow> [FLAG_ABSENT])"

definition mutation_enc :: "mutation \<Rightarrow> u8 list" where
  "mutation_enc m = (case m of Put v \<Rightarrow> MUTATION_PUT # bytes_enc v | Delete \<Rightarrow> [MUTATION_DELETE])"

lemma flags_differ [simp]:
  "FLAG_ABSENT \<noteq> FLAG_PRESENT" "FLAG_PRESENT \<noteq> FLAG_ABSENT"
  "MUTATION_DELETE \<noteq> MUTATION_PUT" "MUTATION_PUT \<noteq> MUTATION_DELETE"
  "RECORD_COMMITTED \<noteq> RECORD_INTENT" "RECORD_INTENT \<noteq> RECORD_COMMITTED"
  by (simp_all add: FLAG_ABSENT_def FLAG_PRESENT_def MUTATION_DELETE_def MUTATION_PUT_def
      RECORD_COMMITTED_def RECORD_INTENT_def)

text \<open>
  A tag byte \<open>p\<close> announces a payload, a tag byte \<open>a\<close> stands for \<open>N\<close> alone, any other is an error.
\<close>

lemma tagged_field:
  assumes "field_codec enc ok dec" and "p \<noteq> a"
    and D: "\<And>buf offset. D buf offset =
      dec_bind (decode_byte msg buf offset) (\<lambda>(b, offset).
        if b = p then dec_bind (dec buf offset) (\<lambda>(x, offset). Some (Ok (W x, offset)))
        else if b = a then Some (Ok (N, offset)) else decode_error (err b))"
    and inj: "\<And>x y. W x = W y \<Longrightarrow> x = y" and cover: "\<And>y. y = N \<or> (\<exists>x. y = W x)" and "\<And>x. W x \<noteq> N"
    and E: "\<And>x. E (W x) = p # enc x" "E N = [a]" and OK: "\<And>x. OK (W x) = ok x" "OK N"
  shows "field_codec E OK D"
proof
  fix pre s y off
  have payload: "dec_bind (dec (pre @ p # rest) (Suc (length pre))) f = Some (Inr z) \<longleftrightarrow>
      (\<exists>x r. ok x \<and> rest = enc x @ r \<and> f (x, Suc (length (pre @ enc x))) = Some (Inr z))" for rest f z
    using field_codec.dec_step [OF assms(1), of "pre @ [p]" rest f z] by simp
  have "D (pre @ s) (length pre) = Some (Inr (y, off)) \<longleftrightarrow>
      (\<exists>x r. ok x \<and> s = p # enc x @ r \<and> y = W x \<and> off = Suc (length (pre @ enc x))) \<or>
      (\<exists>r. s = a # r \<and> y = N \<and> off = Suc (length pre))"
  proof (cases s)
    case (Cons b rest)
    then show ?thesis
      using assms(2) by (cases "b = p") (auto simp: D decode_byte_cases payload)
  qed (simp add: D decode_byte_def)
  also have "\<dots> \<longleftrightarrow> OK y \<and> off = length (pre @ E y) \<and> prefix (E y) s"
    using cover [of y] assms(6) by (auto simp: E OK prefix_def dest: inj)
  finally show "D (pre @ s) (length pre) = Some (Inr (y, off)) \<longleftrightarrow>
      OK y \<and> off = length (pre @ E y) \<and> prefix (E y) s" .
next
  fix pre s
  have "dec (pre @ p # rest) (Suc (length pre)) \<noteq> None" for rest
    using field_codec.dec_no_panic [OF assms(1), of "pre @ [p]" rest] by simp
  then show "D (pre @ s) (length pre) \<noteq> None"
    unfolding D
    by (intro byte_field.dec_step_no_panic) (auto simp: dec_bind_None simp del: not_None_eq)
qed

interpretation value_field: field_codec value_enc value_fits decode_value
  by (rule tagged_field [OF bytes_field.field_codec_axioms flags_differ(2) decode_value_def])
    (auto simp: value_enc_def value_fits_def)

interpretation min_commit_ts_field: field_codec min_commit_ts_enc "\<lambda>_. True" decode_min_commit_ts
  by (rule tagged_field [OF u128_field.field_codec_axioms flags_differ(2),
        where W = "\<lambda>ts. Some (Timestamp ts)"])
    (auto simp: min_commit_ts_enc_def decode_min_commit_ts_def, metis option.exhaust timestamp.exhaust)

interpretation mutation_field: field_codec mutation_enc "\<lambda>m. value_fits (mutation_value m)" decode_mutation
  by (rule tagged_field [OF bytes_field.field_codec_axioms flags_differ(4) decode_mutation_def])
    (auto simp: mutation_enc_def value_fits_def intro: mutation.exhaust)

section \<open>Records\<close>

definition committed_bytes :: "committed_version \<Rightarrow> u8 list" where
  "committed_bytes v =
     [CODEC_VERSION, RECORD_COMMITTED] @ bytes_enc (cv_key v) @
     encode_u128 (ts_val (cv_commit_ts v)) @ value_enc (cv_value v)"

definition intent_bytes :: "intent \<Rightarrow> u8 list" where
  "intent_bytes i =
     [CODEC_VERSION, RECORD_INTENT] @ bytes_enc (intent_key i) @
     encode_u64 (txn_val (intent_txn_id i)) @ encode_u128 (ts_val (intent_start_ts i)) @
     min_commit_ts_enc (intent_min_commit_ts i) @ mutation_enc (intent_mutation i)"

text \<open>An encoder succeeds exactly if every byte string fits a \<open>u32\<close> length.\<close>

lemma encode_bytes_eq:
  "encode_bytes buf bytes =
     (if fits_u32 bytes then Ok (buf @ bytes_enc bytes)
      else Err (codec_error.Encode ''byte slice too long''))"
  by (simp add: encode_bytes_def fits_u32_def bytes_enc_def)

lemma encode_committed_eq:
  "encode_committed v =
     (if fits_u32 (cv_key v) \<and> value_fits (cv_value v) then Ok (committed_bytes v)
      else Err (codec_error.Encode ''byte slice too long''))"
  by (auto simp: encode_committed_def encode_bytes_eq committed_bytes_def value_enc_def value_fits_def
      split: option.splits)

lemma encode_intent_eq:
  "encode_intent i =
     (if fits_u32 (intent_key i) \<and> value_fits (mutation_value (intent_mutation i))
      then Ok (intent_bytes i) else Err (codec_error.Encode ''byte slice too long''))"
  by (auto simp: encode_intent_def encode_bytes_eq intent_bytes_def mutation_enc_def value_fits_def
      min_commit_ts_enc_def split: option.splits mutation.splits)

lemma decode_header_Ok:
  "decode_header t name buf = Some (Inr off) \<longleftrightarrow> off = 2 \<and> (\<exists>s. buf = CODEC_VERSION # t # s)"
  by (cases buf; cases "tl buf") (auto simp: decode_header_def decode_byte_def index_def)

lemma decode_header_no_panic: "decode_header t name buf \<noteq> None"
  by (cases buf; cases "tl buf") (auto simp: decode_header_def decode_byte_def index_def)

text \<open>Two fields one after the other are a field; so a record is a header and one field.\<close>

lemma dec_bind_assoc: "dec_bind (dec_bind r f) g = dec_bind r (\<lambda>x. dec_bind (f x) g)"
  by (cases r rule: option.exhaust; cases "the r") auto

definition seq_enc :: "('a \<Rightarrow> u8 list) \<Rightarrow> ('b \<Rightarrow> u8 list) \<Rightarrow> 'a \<times> 'b \<Rightarrow> u8 list" where
  "seq_enc e1 e2 z = e1 (fst z) @ e2 (snd z)"

definition seq_ok :: "('a \<Rightarrow> bool) \<Rightarrow> ('b \<Rightarrow> bool) \<Rightarrow> 'a \<times> 'b \<Rightarrow> bool" where
  "seq_ok ok1 ok2 z \<longleftrightarrow> ok1 (fst z) \<and> ok2 (snd z)"

definition seq_dec ::
  "(u8 list \<Rightarrow> nat \<Rightarrow> ('a \<times> nat) decoded) \<Rightarrow> (u8 list \<Rightarrow> nat \<Rightarrow> ('b \<times> nat) decoded) \<Rightarrow>
   u8 list \<Rightarrow> nat \<Rightarrow> (('a \<times> 'b) \<times> nat) decoded" where
  "seq_dec d1 d2 buf offset =
     dec_bind (d1 buf offset) (\<lambda>(x, offset).
       dec_bind (d2 buf offset) (\<lambda>(y, offset). Some (Ok ((x, y), offset))))"

lemma field_codec_seq:
  assumes "field_codec e1 ok1 d1" and "field_codec e2 ok2 d2"
  shows "field_codec (seq_enc e1 e2) (seq_ok ok1 ok2) (seq_dec d1 d2)"
proof
  fix pre s z off
  have second: "dec_bind (d2 (pre @ e1 x @ rest) (length (pre @ e1 x))) f = Some (Inr z) \<longleftrightarrow>
      (\<exists>y r. ok2 y \<and> rest = e2 y @ r \<and> f (y, length (pre @ e1 x @ e2 y)) = Some (Inr z))"
    for x rest f and z :: "('a \<times> 'b) \<times> nat"
    using field_codec.dec_step [OF assms(2), of "pre @ e1 x" rest f z] by simp
  show "seq_dec d1 d2 (pre @ s) (length pre) = Some (Inr (z, off)) \<longleftrightarrow>
    seq_ok ok1 ok2 z \<and> off = length (pre @ seq_enc e1 e2 z) \<and> prefix (seq_enc e1 e2 z) s"
    unfolding seq_dec_def field_codec.dec_step [OF assms(1)]
    by (cases z) (auto simp: second prefix_def seq_enc_def seq_ok_def simp del: length_append)
next
  fix pre s
  have "d2 (pre @ e1 x @ rest) (length (pre @ e1 x)) \<noteq> None" for x rest
    using field_codec.dec_no_panic [OF assms(2), of "pre @ e1 x" rest] by simp
  then show "seq_dec d1 d2 (pre @ s) (length pre) \<noteq> None"
    unfolding seq_dec_def
    by (intro field_codec.dec_step_no_panic [OF assms(1)]) (auto simp: dec_bind_None simp del: length_append)
qed

definition decode_record ::
  "u8 \<Rightarrow> string \<Rightarrow> (u8 list \<Rightarrow> nat \<Rightarrow> ('a \<times> nat) decoded) \<Rightarrow> ('a \<Rightarrow> 'r) \<Rightarrow> u8 list \<Rightarrow> 'r decoded" where
  "decode_record t name dec build buf =
     dec_bind (decode_header t name buf) (\<lambda>offset.
     dec_bind (dec buf offset) (\<lambda>(x, offset).
       if offset \<noteq> length buf then decode_error ''trailing garbage'' else Some (Ok (build x))))"

lemma decode_record_Ok:
  assumes "field_codec enc ok dec"
  shows "decode_record t name dec build buf = Some (Inr (r :: 'r)) \<longleftrightarrow>
    (\<exists>x. ok x \<and> buf = [CODEC_VERSION, t] @ enc x \<and> r = build x)"
proof -
  have step: "dec_bind (dec (CODEC_VERSION # t # s) 2) f = Some (Inr r) \<longleftrightarrow>
      (\<exists>x rest. ok x \<and> s = enc x @ rest \<and> f (x, length (enc x) + 2) = Some (Inr r))" for s f and r :: 'r
    using field_codec.dec_step [OF assms, of "[CODEC_VERSION, t]" s f r] by (simp add: numeral_2_eq_2)
  show ?thesis
    by (auto simp: decode_record_def dec_bind_Ok [of "decode_header t name buf"] decode_header_Ok step
        split: if_splits) (metis append_Nil2)+
qed

lemma decode_record_no_panic:
  assumes "field_codec enc ok dec"
  shows "decode_record t name dec build buf \<noteq> None"
proof -
  have "dec (CODEC_VERSION # t # s) 2 \<noteq> None" for s
    using field_codec.dec_no_panic [OF assms, of "[CODEC_VERSION, t]" s] by (simp add: numeral_2_eq_2)
  then show ?thesis
    by (auto simp: decode_record_def dec_bind_None decode_header_no_panic decode_header_Ok)
qed

interpretation committed_field: field_codec
  "seq_enc bytes_enc (seq_enc encode_u128 value_enc)"
  "seq_ok fits_u32 (seq_ok (\<lambda>_. True) value_fits)"
  "seq_dec decode_bytes (seq_dec decode_u128 decode_value)"
  by (intro field_codec_seq bytes_field.field_codec_axioms u128_field.field_codec_axioms
      value_field.field_codec_axioms)

interpretation intent_field: field_codec
  "seq_enc bytes_enc (seq_enc encode_u64 (seq_enc encode_u128 (seq_enc min_commit_ts_enc mutation_enc)))"
  "seq_ok fits_u32 (seq_ok (\<lambda>_. True) (seq_ok (\<lambda>_. True)
     (seq_ok (\<lambda>_. True) (\<lambda>m. value_fits (mutation_value m)))))"
  "seq_dec decode_bytes (seq_dec decode_u64 (seq_dec decode_u128
     (seq_dec decode_min_commit_ts decode_mutation)))"
  by (intro field_codec_seq bytes_field.field_codec_axioms u64_field.field_codec_axioms
      u128_field.field_codec_axioms min_commit_ts_field.field_codec_axioms
      mutation_field.field_codec_axioms)

lemma decode_committed_record:
  "decode_committed = decode_record RECORD_COMMITTED ''committed''
     (seq_dec decode_bytes (seq_dec decode_u128 decode_value))
     (\<lambda>(key, ts, x). \<lparr>cv_key = key, cv_commit_ts = Timestamp ts, cv_value = x\<rparr>)"
  by (simp add: decode_committed_def decode_record_def seq_dec_def dec_bind_assoc split_def fun_eq_iff
      cong: if_cong)

lemma decode_intent_record:
  "decode_intent = decode_record RECORD_INTENT ''intent''
     (seq_dec decode_bytes (seq_dec decode_u64 (seq_dec decode_u128
       (seq_dec decode_min_commit_ts decode_mutation))))
     (\<lambda>(key, txn, s, mc, m). \<lparr>intent_key = key, intent_txn_id = TxnId txn, intent_start_ts = Timestamp s,
        intent_mutation = m, intent_min_commit_ts = mc\<rparr>)"
  by (simp add: decode_intent_def decode_record_def seq_dec_def dec_bind_assoc split_def fun_eq_iff
      cong: if_cong)

lemma decode_committed_iff:
  "decode_committed buf = Some (Inr v) \<longleftrightarrow> encode_committed v = Inr buf"
proof -
  have "decode_committed buf = Some (Inr v) \<longleftrightarrow>
      (\<exists>key ts x. fits_u32 key \<and> value_fits x \<and>
        buf = [CODEC_VERSION, RECORD_COMMITTED] @ bytes_enc key @ encode_u128 ts @ value_enc x \<and>
        v = \<lparr>cv_key = key, cv_commit_ts = Timestamp ts, cv_value = x\<rparr>)"
    by (auto simp: decode_committed_record decode_record_Ok [OF committed_field.field_codec_axioms]
        seq_enc_def seq_ok_def)
  also have "\<dots> \<longleftrightarrow> encode_committed v = Inr buf"
    by (cases v; cases "cv_commit_ts v") (auto simp: encode_committed_eq committed_bytes_def)
  finally show ?thesis .
qed

lemma decode_intent_iff:
  "decode_intent buf = Some (Inr i) \<longleftrightarrow> encode_intent i = Inr buf"
proof -
  have "decode_intent buf = Some (Inr i) \<longleftrightarrow>
      (\<exists>key txn s mc m. fits_u32 key \<and> value_fits (mutation_value m) \<and>
        buf = [CODEC_VERSION, RECORD_INTENT] @ bytes_enc key @ encode_u64 txn @ encode_u128 s @
          min_commit_ts_enc mc @ mutation_enc m \<and>
        i = \<lparr>intent_key = key, intent_txn_id = TxnId txn, intent_start_ts = Timestamp s,
             intent_mutation = m, intent_min_commit_ts = mc\<rparr>)"
    by (auto simp: decode_intent_record decode_record_Ok [OF intent_field.field_codec_axioms]
        seq_enc_def seq_ok_def)
  also have "\<dots> \<longleftrightarrow> encode_intent i = Inr buf"
    by (cases i; cases "intent_txn_id i"; cases "intent_start_ts i")
      (auto simp: encode_intent_eq intent_bytes_def)
  finally show ?thesis .
qed

text \<open>Neither decoder panics, whatever bytes it gets, and neither takes the other's records.\<close>

lemma decode_committed_no_panic: "decode_committed buf \<noteq> None"
  unfolding decode_committed_record by (rule decode_record_no_panic [OF committed_field.field_codec_axioms])

lemma decode_intent_no_panic: "decode_intent buf \<noteq> None"
  unfolding decode_intent_record by (rule decode_record_no_panic [OF intent_field.field_codec_axioms])

lemma decode_header_wrong_type:
  "t' \<noteq> t \<Longrightarrow> decode_header t name (CODEC_VERSION # t' # s) =
     decode_error (''expected '' @ name @ '' record type '' @ show_u8 t @ '', got '' @ show_u8 t')"
  by (simp add: decode_header_def index_def decode_byte_def)

lemma show_record_types: "show_u8 RECORD_COMMITTED = ''1''" "show_u8 RECORD_INTENT = ''2''"
  by code_simp+

lemma decode_intent_wrong_type:
  "encode_committed v = Inr buf \<Longrightarrow>
   decode_intent buf = decode_error ''expected intent record type 2, got 1''"
  by (auto simp: encode_committed_eq committed_bytes_def decode_intent_def decode_header_wrong_type
      show_record_types split: if_splits)

lemma decode_committed_wrong_type:
  "encode_intent i = Inr buf \<Longrightarrow>
   decode_committed buf = decode_error ''expected committed record type 1, got 2''"
  by (auto simp: encode_intent_eq intent_bytes_def decode_committed_def decode_header_wrong_type
      show_record_types split: if_splits)

end
