(* ===== verification/Codec_Order.thy ===== *)
theory Codec_Order
  imports Mvcc_Codec
begin

text \<open>
  The byte order of encoded versions: big-endian fields of fixed width compare as their numbers, so
  records sort by the length of the key, then the key, then the commit timestamp.
\<close>

section \<open>Comparing byte strings\<close>

lemma append_less_same_length:
  fixes xs ys :: "'a::linorder list"
  assumes "length xs = length ys"
  shows "xs @ us < ys @ vs \<longleftrightarrow> xs < ys \<or> xs = ys \<and> us < vs"
  using assms by (induction rule: list_induct2) auto

lemma u8_of_nat_less: "m < 256 \<Longrightarrow> n < 256 \<Longrightarrow> (of_nat m :: u8) < of_nat n \<longleftrightarrow> m < n"
  by (simp add: word_less_nat_alt unat_of_nat)

lemma to_be_bytes_inject:
  assumes "m < 256 ^ w" and "n < 256 ^ w"
  shows "to_be_bytes w m = to_be_bytes w n \<longleftrightarrow> m = n"
  using from_to_be_bytes [OF assms(1)] from_to_be_bytes [OF assms(2)] by metis

lemma to_be_bytes_less:
  "m < 256 ^ w \<Longrightarrow> n < 256 ^ w \<Longrightarrow> to_be_bytes w m < to_be_bytes w n \<longleftrightarrow> m < n"
proof (induction w arbitrary: m n)
  case (Suc w)
  have lt: "m div 256 < 256 ^ w" "n div 256 < 256 ^ w"
    using Suc.prems by (simp_all add: less_mult_imp_div_less mult.commute)
  have "m < n \<longleftrightarrow> m div 256 < n div 256 \<or> m div 256 = n div 256 \<and> m mod 256 < n mod 256"
    using div_mult_mod_eq [of m 256] div_mult_mod_eq [of n 256] mod_less_divisor [of 256 m]
      mod_less_divisor [of 256 n] by linarith
  then show ?case
    using lt by (simp add: append_less_same_length Suc.IH to_be_bytes_inject u8_of_nat_less)
qed simp

lemma u128_digits: "unat (a :: u128) < 256 ^ 16"
  using unsigned_less [of a] by simp

lemma encode_u128_less: "encode_u128 a < encode_u128 b \<longleftrightarrow> a < b"
  by (simp add: encode_u128_def to_be_bytes_less [OF u128_digits u128_digits] word_less_nat_alt)

lemma encode_u128_inject: "encode_u128 a = encode_u128 b \<longleftrightarrow> a = b"
  by (simp add: encode_u128_def to_be_bytes_inject [OF u128_digits u128_digits] word_unat_eq_iff)

lemma encode_u128_append_less:
  "encode_u128 a @ us < encode_u128 b @ vs \<longleftrightarrow> a < b \<or> a = b \<and> us < vs"
proof -
  have "length (encode_u128 a) = length (encode_u128 b)"
    by (simp add: encode_u128_def)
  then show ?thesis
    by (simp add: append_less_same_length encode_u128_less encode_u128_inject)
qed

section \<open>Records\<close>

lemma bytes_enc_less:
  assumes "fits_u32 k" and "fits_u32 k'"
  shows "bytes_enc k @ us < bytes_enc k' @ vs \<longleftrightarrow>
    (length k, k) < (length k', k') \<or> k = k' \<and> us < vs"
proof -
  have len: "length k < 256 ^ 4" "length k' < 256 ^ 4"
    using assms by (simp_all add: fits_u32_def)
  have enc: "encode_u32 (of_nat (length k)) = to_be_bytes 4 (length k)" if "fits_u32 k" for k :: "u8 list"
    using that by (simp add: encode_u32_def fits_u32_def unat_of_nat)
  show ?thesis
  proof (cases "length k = length k'")
    case True
    then show ?thesis
      by (simp add: bytes_enc_def enc assms append_less_same_length less_prod_def)
  next
    case False
    then show ?thesis
      using len by (auto simp: bytes_enc_def enc assms append_less_same_length to_be_bytes_less
          to_be_bytes_inject less_prod_def)
  qed
qed

lemma committed_bytes_less:
  assumes "fits_u32 (cv_key v)" and "fits_u32 (cv_key v')"
    and "cv_key v = cv_key v' \<Longrightarrow> cv_commit_ts v \<noteq> cv_commit_ts v'"
  shows "committed_bytes v < committed_bytes v' \<longleftrightarrow>
    (length (cv_key v), cv_key v, cv_commit_ts v) < (length (cv_key v'), cv_key v', cv_commit_ts v')"
proof -
  obtain s where s: "cv_commit_ts v = Timestamp s"
    by (cases "cv_commit_ts v")
  obtain t where t: "cv_commit_ts v' = Timestamp t"
    by (cases "cv_commit_ts v'")
  show ?thesis
    using assms(3)
    by (auto simp: committed_bytes_def bytes_enc_less assms(1,2) s t less_prod_def encode_u128_append_less)
qed

end
