(* ===== verification/Codec_Properties.thy ===== *)
theory Codec_Properties
  imports Codec_Order
begin

text \<open>
  The properties of the record codec: decoding inverts encoding and accepts nothing else, no input
  makes a decoder panic, the record types are never confused, encoding fails exactly on overlong fields,
  and encoded versions sort by timestamp.
\<close>

definition ex_version :: committed_version where
  "ex_version = \<lparr>cv_key = [1], cv_commit_ts = Timestamp 5, cv_value = Some [7]\<rparr>"

definition ex_codec_intent :: intent where
  "ex_codec_intent =
     \<lparr>intent_key = [1], intent_txn_id = TxnId 3, intent_start_ts = Timestamp 6,
      intent_mutation = Delete, intent_min_commit_ts = Some (Timestamp 7)\<rparr>"

lemma ex_encodable:
  "encode_committed ex_version = Ok (committed_bytes ex_version)"
  "encode_intent ex_codec_intent = Ok (intent_bytes ex_codec_intent)"
  by (simp_all add: encode_committed_eq encode_intent_eq ex_version_def ex_codec_intent_def fits_u32_def
      value_fits_def)

text \<open>
  C23. Round trip and canonicity for committed versions: \<open>decode_committed\<close> accepts a buffer with result \<open>v\<close> exactly if the buffer is the
  encoding of \<open>v\<close>. So what was encoded is decoded to itself, and no two buffers decode to the same version.
\<close>

theorem committed_codec_exact:
  "decode_committed buf = Some (Ok v) \<longleftrightarrow> encode_committed v = Ok buf"
  by (rule decode_committed_iff)

text \<open>
  C24. Round trip and canonicity for intents: \<open>decode_intent\<close> accepts a buffer with result \<open>i\<close> exactly if the buffer is the
  encoding of \<open>i\<close>, whatever the mutation and with or without a minimal commit timestamp.
\<close>

theorem intent_codec_exact:
  "decode_intent buf = Some (Ok i) \<longleftrightarrow> encode_intent i = Ok buf"
  by (rule decode_intent_iff)

text \<open>
  C25. No panic: on every byte sequence, however truncated or corrupted, both decoders return a result; no index or slice
  is out of range.
\<close>

theorem decoders_never_panic:
  "decode_committed buf \<noteq> None \<and> decode_intent buf \<noteq> None"
  by (simp add: decode_committed_no_panic decode_intent_no_panic del: not_None_eq)

text \<open>
  C26. The byte order of encoded versions preserves the numeric order of timestamps: of two encoded versions that differ in
  key or timestamp, the byte-wise smaller one has the shorter key, or a smaller key of the same length, or the same key
  and the earlier commit timestamp. So the versions of one key sort by commit timestamp, up to \<open>u128::MAX\<close>.
\<close>

theorem encoded_versions_sort:
  assumes "encode_committed v = Ok b" and "encode_committed v' = Ok b'"
    and "(cv_key v, cv_commit_ts v) \<noteq> (cv_key v', cv_commit_ts v')"
  shows "b < b' \<longleftrightarrow>
    (length (cv_key v), cv_key v, cv_commit_ts v) < (length (cv_key v'), cv_key v', cv_commit_ts v')"
proof -
  have "b = committed_bytes v" "b' = committed_bytes v'" "fits_u32 (cv_key v)" "fits_u32 (cv_key v')"
    using assms(1,2) by (auto simp: encode_committed_eq split: if_splits)
  then show ?thesis
    using committed_bytes_less [of v v'] assms(3) by auto
qed

theorem encoded_versions_sort_witness:
  "committed_bytes ex_version < committed_bytes (ex_version\<lparr>cv_commit_ts := Timestamp (2 ^ 64)\<rparr>)"
proof -
  let ?w = "ex_version\<lparr>cv_commit_ts := Timestamp (2 ^ 64)\<rparr>"
  have "encode_committed ?w = Ok (committed_bytes ?w)"
    by (simp add: encode_committed_eq ex_version_def fits_u32_def value_fits_def)
  then show ?thesis
    using encoded_versions_sort [OF ex_encodable(1), of ?w] by (simp add: ex_version_def less_prod_def)
qed

text \<open>
  Records are not confused: the intent decoder rejects every encoded version and the version decoder every encoded
  intent, each with the error that names the expected and the found record type.
\<close>

theorem records_not_confused:
  assumes "encode_committed v = Ok buf" and "encode_intent i = Ok buf'"
  shows "decode_intent buf = Some (Err (codec_error.Decode ''expected intent record type 2, got 1'')) \<and>
    decode_committed buf' = Some (Err (codec_error.Decode ''expected committed record type 1, got 2''))"
  using decode_intent_wrong_type [OF assms(1)] decode_committed_wrong_type [OF assms(2)] by simp

theorem records_not_confused_witness:
  "decode_intent (committed_bytes ex_version) =
     Some (Err (codec_error.Decode ''expected intent record type 2, got 1''))"
  using records_not_confused [OF ex_encodable] by blast

text \<open>
  Encoding fails exactly when a byte string is too long for its four-byte length, and then with that error: for a
  version its key or its value, for an intent its key or the value it puts.
\<close>

theorem encoding_fails_iff_too_long:
  "(encode_committed v = Err (codec_error.Encode ''byte slice too long'') \<longleftrightarrow>
      2 ^ 32 \<le> length (cv_key v) \<or> (\<exists>x. cv_value v = Some x \<and> 2 ^ 32 \<le> length x)) \<and>
   (isl (encode_committed v) \<longleftrightarrow> encode_committed v = Err (codec_error.Encode ''byte slice too long'')) \<and>
   (encode_intent i = Err (codec_error.Encode ''byte slice too long'') \<longleftrightarrow>
      2 ^ 32 \<le> length (intent_key i) \<or> (\<exists>x. intent_mutation i = Put x \<and> 2 ^ 32 \<le> length x)) \<and>
   (isl (encode_intent i) \<longleftrightarrow> encode_intent i = Err (codec_error.Encode ''byte slice too long''))"
  by (cases "cv_value v"; cases "intent_mutation i")
    (auto simp: encode_committed_eq encode_intent_eq fits_u32_def value_fits_def not_less)

end
