(* ===== verification/Mvcc_Conformance.thy ===== *)
theory Mvcc_Conformance
  imports Mvcc_Examples Mvcc_Codec Rust_Runtime
begin

text \<open>
  The conformance suites of \<open>conformance.rs\<close>, which adapter authors run against their own backends.
  Each test is a program over a backend's method table and the state its factory returns; it is
  \<open>Some ()\<close> if no assertion and no \<open>unwrap\<close> in it panics. Every backend that keeps the contract
  passes: its calls answer as those of the in-memory backend do, on which the tests are run.
\<close>

section \<open>Literals\<close>

definition version :: "string \<Rightarrow> u128 \<Rightarrow> val option \<Rightarrow> committed_version" where
  "version key ts v = \<lparr>cv_key = ascii key, cv_commit_ts = Timestamp ts, cv_value = v\<rparr>"

definition text_version :: "string \<Rightarrow> u128 \<Rightarrow> string \<Rightarrow> committed_version" where
  "text_version key ts v = version key ts (Some (ascii v))"

definition new_intent :: "string \<Rightarrow> mutation \<Rightarrow> intent" where
  "new_intent key m =
     \<lparr>intent_key = ascii key, intent_txn_id = TxnId 1, intent_start_ts = Timestamp 5,
      intent_mutation = m, intent_min_commit_ts = None\<rparr>"

definition put_all :: "'b backend \<Rightarrow> committed_version list \<Rightarrow> 'b \<Rightarrow> 'b option" where
  "put_all B = for_each (\<lambda>c b. exec (put_committed B b c))"

section \<open>The suite for committed-only backends\<close>

definition committed_versions_are_ascending_and_cross_u64 :: "'b backend \<Rightarrow> 'b \<Rightarrow> unit option" where
  "committed_versions_are_ascending_and_cross_u64 B b =
     (let boundary = ucast (- 1 :: u64) :: u128 in
      do {
        b \<leftarrow> put_all B (map (\<lambda>t. version ''k'' t (Some (encode_u128 t)))
               [boundary + 1, boundary - 1, boundary]) b;
        versions \<leftarrow> unwrap (get_committed_versions B b (ascii ''k''));
        assert_that (map cv_commit_ts versions =
          [Timestamp (boundary - 1), Timestamp boundary, Timestamp (boundary + 1)])
      })"

definition committed_batch_and_visibility_are_conformant :: "'b backend \<Rightarrow> 'b \<Rightarrow> unit option" where
  "committed_batch_and_visibility_are_conformant B b =
     do {
       b \<leftarrow> exec (put_committed_batch B b
              [text_version ''a'' 10 ''old'', text_version ''a'' 20 ''new'', version ''b'' 10 None]);
       found \<leftarrow> unwrap (get_visible_committed B b (ascii ''a'') (Timestamp 15));
       visible_version \<leftarrow> found;
       assert_that (cv_value visible_version = Some (ascii ''old''));
       latest \<leftarrow> unwrap (get_latest_commit_ts B b (ascii ''a''));
       assert_that (latest = Some (Timestamp 20));
       keys \<leftarrow> unwrap (all_keys B b);
       assert_that (keys = [ascii ''a'', ascii ''b''])
     }"

definition committed_key_scans_and_timestamp_pages_are_conformant :: "'b backend \<Rightarrow> 'b \<Rightarrow> unit option" where
  "committed_key_scans_and_timestamp_pages_are_conformant B b =
     do {
       b \<leftarrow> put_all B (map (\<lambda>(key, t). version key t (Some [ucast t]))
              [(''aa'', 10), (''aa'', 20), (''ab'', 10), (''b'', 10)]) b;
       keys \<leftarrow> unwrap (keys_from B b (Some (ascii ''ab'')) 2);
       assert_that (keys = [ascii ''ab'', ascii ''b'']);
       keys \<leftarrow> unwrap (keys_from_prefix B b (ascii ''a'') None 10);
       assert_that (keys = [ascii ''aa'', ascii ''ab'']);
       tss \<leftarrow> unwrap (get_committed_timestamps_before B b (ascii ''aa'') (Timestamp 30) 2);
       assert_that (tss = [Timestamp 20, Timestamp 10])
     }"

definition committed_removal_and_tombstone_collapse_are_conformant :: "'b backend \<Rightarrow> 'b \<Rightarrow> unit option" where
  "committed_removal_and_tombstone_collapse_are_conformant B b =
     do {
       b \<leftarrow> exec (put_committed_batch B b [text_version ''k'' 10 ''value'', version ''k'' 20 None]);
       b \<leftarrow> exec (remove_committed_version B b (ascii ''k'') (Timestamp 10));
       versions \<leftarrow> unwrap (get_committed_versions B b (ascii ''k''));
       assert_that (length versions = 1);
       b \<leftarrow> exec (collapse_tombstone B b (ascii ''k'') (Timestamp 20) []);
       versions \<leftarrow> unwrap (get_committed_versions B b (ascii ''k''));
       assert_that (versions = [])
     }"

definition test_committed_backend_conformance :: "'b backend \<Rightarrow> 'b \<Rightarrow> unit option list" where
  "test_committed_backend_conformance B b =
     [committed_versions_are_ascending_and_cross_u64 B b,
      committed_batch_and_visibility_are_conformant B b,
      committed_key_scans_and_timestamp_pages_are_conformant B b,
      committed_removal_and_tombstone_collapse_are_conformant B b]"

section \<open>The suite for complete backends\<close>

definition test_ascending_commit_ts :: "'b backend \<Rightarrow> 'b \<Rightarrow> unit option" where
  "test_ascending_commit_ts B b =
     do {
       b \<leftarrow> exec (put_committed B b (text_version ''k1'' 20 ''v20''));
       b \<leftarrow> exec (put_committed B b (text_version ''k1'' 10 ''v10''));
       b \<leftarrow> exec (put_committed B b (text_version ''k1'' 30 ''v30''));
       versions \<leftarrow> unwrap (get_committed_versions B b (ascii ''k1''));
       assert_that (length versions = 3);
       v \<leftarrow> vec_index versions 0;
       assert_that (cv_commit_ts v = Timestamp 10);
       v \<leftarrow> vec_index versions 1;
       assert_that (cv_commit_ts v = Timestamp 20);
       v \<leftarrow> vec_index versions 2;
       assert_that (cv_commit_ts v = Timestamp 30)
     }"

definition test_all_or_nothing_batch_persistence :: "'b backend \<Rightarrow> 'b \<Rightarrow> unit option" where
  "test_all_or_nothing_batch_persistence B b =
     do {
       b \<leftarrow> exec (put_committed_batch B b [text_version ''k1'' 10 ''v1'', text_version ''k2'' 10 ''v2'']);
       v1 \<leftarrow> unwrap (get_committed_versions B b (ascii ''k1''));
       v2 \<leftarrow> unwrap (get_committed_versions B b (ascii ''k2''));
       assert_that (length v1 = 1);
       assert_that (length v2 = 1)
     }"

definition test_intent_batch_persistence :: "'b backend \<Rightarrow> 'b \<Rightarrow> unit option" where
  "test_intent_batch_persistence B b =
     do {
       b \<leftarrow> exec (put_intents_batch B b
              [new_intent ''kb1'' (Put (ascii ''v1'')), new_intent ''kb2'' Delete]);
       found \<leftarrow> unwrap (get_intent B b (ascii ''kb1''));
       assert_that (found \<noteq> None);
       found \<leftarrow> unwrap (get_intent B b (ascii ''kb2''));
       assert_that (found \<noteq> None);
       b \<leftarrow> exec (commit_intents_batch B b [text_version ''kb1'' 10 ''v1'']
              [(ascii ''kb1'', TxnId 1, Timestamp 5)]);
       found \<leftarrow> unwrap (get_intent B b (ascii ''kb1''));
       assert_that (found = None);
       versions \<leftarrow> unwrap (get_committed_versions B b (ascii ''kb1''));
       assert_that (length versions = 1);
       found \<leftarrow> unwrap (get_intent B b (ascii ''kb2''));
       assert_that (found \<noteq> None);
       b \<leftarrow> exec (remove_intents_batch B b [(ascii ''kb2'', TxnId 1, Timestamp 5)]);
       found \<leftarrow> unwrap (get_intent B b (ascii ''kb2''));
       assert_that (found = None)
     }"

definition test_strict_intent_identity :: "'b backend \<Rightarrow> 'b \<Rightarrow> unit option" where
  "test_strict_intent_identity B b =
     (let intent = new_intent ''k1'' (Put (ascii ''i1'')) in
      do {
        b \<leftarrow> exec (put_intent B b intent);
        found \<leftarrow> unwrap (get_intent B b (ascii ''k1''));
        fetched \<leftarrow> found;
        assert_that (fetched = intent);
        (removed_wrong_txn, b) \<leftarrow> unwrap_mut (remove_intent B b (ascii ''k1'') (TxnId 2) (Timestamp 5));
        assert_that (\<not> removed_wrong_txn);
        (removed_wrong_ts, b) \<leftarrow> unwrap_mut (remove_intent B b (ascii ''k1'') (TxnId 1) (Timestamp 6));
        assert_that (\<not> removed_wrong_ts);
        found \<leftarrow> unwrap (get_intent B b (ascii ''k1''));
        assert_that (found \<noteq> None);
        (removed_correct, b) \<leftarrow> unwrap_mut (remove_intent B b (ascii ''k1'') (TxnId 1) (Timestamp 5));
        assert_that removed_correct;
        found \<leftarrow> unwrap (get_intent B b (ascii ''k1''));
        assert_that (found = None)
      })"

definition test_all_keys_collation :: "'b backend \<Rightarrow> 'b \<Rightarrow> unit option" where
  "test_all_keys_collation B b =
     do {
       b \<leftarrow> exec (put_committed B b (text_version ''a'' 10 ''v''));
       b \<leftarrow> exec (put_committed B b (text_version ''b'' 10 ''v''));
       b \<leftarrow> exec (put_committed B b (text_version ''b'' 20 ''v''));
       b \<leftarrow> exec (put_intent B b (new_intent ''c'' (Put (ascii ''i''))));
       keys \<leftarrow> unwrap (all_keys B b);
       assert_that (keys = [ascii ''a'', ascii ''b'', ascii ''c''])
     }"

definition test_tombstone_preservation :: "'b backend \<Rightarrow> 'b \<Rightarrow> unit option" where
  "test_tombstone_preservation B b =
     do {
       b \<leftarrow> exec (put_committed B b (version ''t1'' 10 None));
       versions \<leftarrow> unwrap (get_committed_versions B b (ascii ''t1''));
       assert_that (length versions = 1);
       v \<leftarrow> vec_index versions 0;
       assert_that (cv_value v = None)
     }"

definition test_fast_lookups :: "'b backend \<Rightarrow> 'b \<Rightarrow> unit option" where
  "test_fast_lookups B b =
     do {
       latest \<leftarrow> unwrap (get_latest_committed B b (ascii ''f1''));
       assert_that (latest = None);
       latest_ts \<leftarrow> unwrap (get_latest_commit_ts B b (ascii ''f1''));
       assert_that (latest_ts = None);
       vis \<leftarrow> unwrap (get_visible_committed B b (ascii ''f1'') (Timestamp 100));
       assert_that (vis = None);
       b \<leftarrow> exec (put_committed B b (text_version ''f1'' 10 ''v10''));
       b \<leftarrow> exec (put_committed B b (version ''f1'' 20 None));
       b \<leftarrow> exec (put_committed B b (text_version ''f1'' 30 ''v30''));
       found \<leftarrow> unwrap (get_latest_committed B b (ascii ''f1''));
       latest \<leftarrow> found;
       assert_that (cv_commit_ts latest = Timestamp 30);
       assert_that (cv_value latest = Some (ascii ''v30''));
       latest_ts \<leftarrow> unwrap (get_latest_commit_ts B b (ascii ''f1''));
       assert_that (latest_ts = Some (Timestamp 30));
       vis_5 \<leftarrow> unwrap (get_visible_committed B b (ascii ''f1'') (Timestamp 5));
       assert_that (vis_5 = None);
       found \<leftarrow> unwrap (get_visible_committed B b (ascii ''f1'') (Timestamp 10));
       vis_10 \<leftarrow> found;
       assert_that (cv_commit_ts vis_10 = Timestamp 10);
       assert_that (cv_value vis_10 = Some (ascii ''v10''));
       found \<leftarrow> unwrap (get_visible_committed B b (ascii ''f1'') (Timestamp 15));
       vis_15 \<leftarrow> found;
       assert_that (cv_commit_ts vis_15 = Timestamp 10);
       assert_that (cv_value vis_15 = Some (ascii ''v10''));
       found \<leftarrow> unwrap (get_visible_committed B b (ascii ''f1'') (Timestamp 20));
       vis_20 \<leftarrow> found;
       assert_that (cv_commit_ts vis_20 = Timestamp 20);
       assert_that (cv_value vis_20 = None);
       found \<leftarrow> unwrap (get_visible_committed B b (ascii ''f1'') (Timestamp 30));
       vis_30 \<leftarrow> found;
       assert_that (cv_commit_ts vis_30 = Timestamp 30);
       found \<leftarrow> unwrap (get_visible_committed B b (ascii ''f1'') (Timestamp 100));
       vis_100 \<leftarrow> found;
       assert_that (cv_commit_ts vis_100 = Timestamp 30);
       assert_that (cv_value vis_100 = Some (ascii ''v30''))
     }"

definition test_binary_handling :: "'b backend \<Rightarrow> 'b \<Rightarrow> unit option" where
  "test_binary_handling B b =
     (let binary_key = [0, 255, 128, 64]; binary_val = [1, 254, 127, 63] in
      do {
        b \<leftarrow> exec (put_committed B b
               \<lparr>cv_key = binary_key, cv_commit_ts = Timestamp 10, cv_value = Some binary_val\<rparr>);
        versions \<leftarrow> unwrap (get_committed_versions B b binary_key);
        v \<leftarrow> vec_index versions 0;
        assert_that (cv_key v = binary_key);
        assert_that (cv_value v = Some binary_val)
      })"

definition test_keys_from :: "'b backend \<Rightarrow> 'b \<Rightarrow> unit option" where
  "test_keys_from B b =
     do {
       b \<leftarrow> exec (put_committed B b (text_version ''a'' 10 ''v''));
       b \<leftarrow> exec (put_intent B b (new_intent ''b'' (Put (ascii ''i''))));
       b \<leftarrow> exec (put_committed B b (text_version ''c'' 10 ''v''));
       b \<leftarrow> exec (put_committed B b (text_version ''c'' 20 ''v''));
       keys \<leftarrow> unwrap (keys_from B b None 10);
       assert_that (keys = [ascii ''a'', ascii ''b'', ascii ''c'']);
       keys \<leftarrow> unwrap (keys_from B b None 2);
       assert_that (keys = [ascii ''a'', ascii ''b'']);
       keys \<leftarrow> unwrap (keys_from B b (Some (ascii ''b'')) 10);
       assert_that (keys = [ascii ''b'', ascii ''c'']);
       keys \<leftarrow> unwrap (keys_from B b (Some (ascii ''b'')) 1);
       assert_that (keys = [ascii ''b'']);
       keys \<leftarrow> unwrap (keys_from B b (Some (ascii ''ab'')) 10);
       assert_that (keys = [ascii ''b'', ascii ''c''])
     }"

definition test_keys_from_prefix :: "'b backend \<Rightarrow> 'b \<Rightarrow> unit option" where
  "test_keys_from_prefix B b =
     do {
       b \<leftarrow> exec (put_committed B b (text_version ''a1'' 10 ''v1''));
       b \<leftarrow> exec (put_committed B b (text_version ''a1'' 20 ''v2''));
       b \<leftarrow> exec (put_committed B b (text_version ''a2'' 10 ''v1''));
       b \<leftarrow> exec (put_intent B b (new_intent ''a3'' (Put (ascii ''i''))));
       b \<leftarrow> exec (put_committed B b (text_version ''b1'' 10 ''v1''));
       keys \<leftarrow> unwrap (keys_from_prefix B b (ascii ''a'') None 10);
       assert_that (keys = [ascii ''a1'', ascii ''a2'']);
       keys \<leftarrow> unwrap (keys_from_prefix B b (ascii ''a'') None 1);
       assert_that (keys = [ascii ''a1'']);
       keys \<leftarrow> unwrap (keys_from_prefix B b (ascii ''a'') (Some (ascii ''a2'')) 10);
       assert_that (keys = [ascii ''a2'']);
       assert_that (isl (keys_from_prefix B b (ascii []) None 10));
       assert_that (isl (keys_from_prefix B b (ascii ''a'') (Some (ascii ''b1'')) 10))
     }"

definition test_get_committed_timestamps_before :: "'b backend \<Rightarrow> 'b \<Rightarrow> unit option" where
  "test_get_committed_timestamps_before B b =
     do {
       b \<leftarrow> put_all B (map (\<lambda>t. version ''k1'' t (Some [1])) [10, 20, 30]) b;
       tss \<leftarrow> unwrap (get_committed_timestamps_before B b (ascii ''k1'') (Timestamp 30) 10);
       assert_that (tss = [Timestamp 20, Timestamp 10]);
       tss \<leftarrow> unwrap (get_committed_timestamps_before B b (ascii ''k1'') (Timestamp 30) 1);
       assert_that (tss = [Timestamp 20]);
       tss \<leftarrow> unwrap (get_committed_timestamps_before B b (ascii ''k1'') (Timestamp 10) 10);
       assert_that (tss = [])
     }"

definition test_collapse_tombstone :: "'b backend \<Rightarrow> 'b \<Rightarrow> unit option" where
  "test_collapse_tombstone B b =
     do {
       b \<leftarrow> put_all B (map (\<lambda>t. version ''k1'' t (Some [1])) [10, 20]) b;
       b \<leftarrow> exec (put_committed B b (version ''k1'' 30 None));
       b \<leftarrow> exec (put_committed B b (version ''k2'' 10 (Some [2])));
       b \<leftarrow> exec (collapse_tombstone B b (ascii ''k1'') (Timestamp 30) [Timestamp 20, Timestamp 10]);
       versions \<leftarrow> unwrap (get_committed_versions B b (ascii ''k1''));
       assert_that (versions = []);
       latest \<leftarrow> unwrap (get_latest_committed B b (ascii ''k1''));
       assert_that (latest = None);
       keys \<leftarrow> unwrap (all_keys B b);
       assert_that (keys = [ascii ''k2'']);
       versions \<leftarrow> unwrap (get_committed_versions B b (ascii ''k2''));
       assert_that (length versions = 1)
     }"

definition test_backend_conformance :: "'b backend \<Rightarrow> 'b \<Rightarrow> unit option list" where
  "test_backend_conformance B b =
     [test_ascending_commit_ts B b,
      test_all_or_nothing_batch_persistence B b,
      test_intent_batch_persistence B b,
      test_strict_intent_identity B b,
      test_all_keys_collation B b,
      test_tombstone_preservation B b,
      test_fast_lookups B b,
      test_binary_handling B b,
      test_keys_from B b,
      test_keys_from_prefix B b,
      test_get_committed_timestamps_before B b,
      test_collapse_tombstone B b]"

section \<open>Backends that represent the same view answer alike\<close>

lemma same_bind_alike: "(\<And>x. f x = g x) \<Longrightarrow> m \<bind> f = m \<bind> g"
  for m :: "'a option"
  by (cases m) simp_all

lemma read_bind_alike: "r = r' \<Longrightarrow> (\<And>x. f x = g x) \<Longrightarrow> unwrap r \<bind> f = unwrap r' \<bind> g"
  by (cases r') auto

text \<open>Two calls that both succeed and lead to the same view may be followed by alike programs.\<close>

lemma atomic_steps_alike:
  assumes "atomic_step valid view b out v'" and "atomic_step valid' view' m out' v'"
    and "\<not> isl (fst out)" and "\<not> isl (fst out')" and "projr (fst out) = projr (fst out')"
    and "\<And>x b' m'. valid b' \<Longrightarrow> valid' m' \<Longrightarrow> view b' = view' m' \<Longrightarrow> f (x, b') = g (x, m')"
  shows "unwrap_mut out \<bind> f = unwrap_mut out' \<bind> g"
  using assms by (cases out; cases out'; cases "fst out"; cases "fst out'") (auto simp: atomic_step_def)

lemma exec_steps_alike:
  assumes "atomic_step valid view b out v'" and "atomic_step valid' view' m out' v'"
    and "\<not> isl (fst out)" and "\<not> isl (fst out')"
    and "\<And>b' m'. valid b' \<Longrightarrow> valid' m' \<Longrightarrow> view b' = view' m' \<Longrightarrow> f b' = g m'"
  shows "exec out \<bind> f = exec out' \<bind> g"
  using assms by (cases out; cases out'; cases "fst out"; cases "fst out'") (auto simp: atomic_step_def)

context committed_store
begin

definition alike :: "'a \<Rightarrow> in_memory \<Rightarrow> bool" where
  "alike b m \<longleftrightarrow> valid b \<and> imb_valid m \<and> view b = imb_view m"

lemma reads_alike:
  assumes "alike b m"
  shows "get_committed_versions B b k = get_committed_versions in_memory_ops m k"
    and "get_latest_committed B b k = get_latest_committed in_memory_ops m k"
    and "get_visible_committed B b k ts = get_visible_committed in_memory_ops m k ts"
    and "get_latest_commit_ts B b k = get_latest_commit_ts in_memory_ops m k"
    and "all_keys B b = all_keys in_memory_ops m"
    and "keys_from B b start n = keys_from in_memory_ops m start n"
    and "get_committed_timestamps_before B b k ts n = get_committed_timestamps_before in_memory_ops m k ts n"
  using assms
  by (simp_all add: alike_def get_committed_versions_eq get_latest_committed_eq get_visible_committed_eq
      get_latest_commit_ts_eq all_keys_eq keys_from_eq get_committed_timestamps_before_eq
      imb.get_committed_versions_eq imb.get_latest_committed_eq imb.get_visible_committed_eq
      imb.get_latest_commit_ts_eq imb.all_keys_eq imb.keys_from_eq
      imb.get_committed_timestamps_before_eq del: in_memory_ops_sel)

lemma prefix_scans_alike:
  assumes "alike b m" and "n \<noteq> 0"
  shows "unwrap (keys_from_prefix B b p start n) = unwrap (keys_from_prefix in_memory_ops m p start n)"
    and "isl (keys_from_prefix B b p start n) = isl (keys_from_prefix in_memory_ops m p start n)"
proof -
  note keys = keys_from_prefix_eq [of b p start n] imb.keys_from_prefix_eq [of m p start n]
  note refuse = keys_from_prefix_refuses [of b p start n] imb.keys_from_prefix_refuses [of m p start n]
  show "unwrap (keys_from_prefix B b p start n) = unwrap (keys_from_prefix in_memory_ops m p start n)"
    and "isl (keys_from_prefix B b p start n) = isl (keys_from_prefix in_memory_ops m p start n)"
    using assms keys refuse
    by (cases "bad_prefix_scan p start"; auto simp: alike_def isl_def simp del: in_memory_ops_sel)+
qed

lemma prefix_scan_bind_alike:
  assumes "alike b m" and "n \<noteq> 0" and "\<And>x. f x = g x"
  shows "unwrap (keys_from_prefix B b p start n) \<bind> f =
    unwrap (keys_from_prefix in_memory_ops m p start n) \<bind> g"
  unfolding prefix_scans_alike(1) [OF assms(1,2)] by (rule same_bind_alike [OF assms(3)])

lemma writes_alike:
  assumes "alike b m" and "\<And>b' m'. alike b' m' \<Longrightarrow> f b' = g m'"
  shows "exec (put_committed B b c) \<bind> f = exec (put_committed in_memory_ops m c) \<bind> g"
    and "exec (put_committed_batch B b cs) \<bind> f = exec (put_committed_batch in_memory_ops m cs) \<bind> g"
    and "exec (remove_committed_version B b k t) \<bind> f =
      exec (remove_committed_version in_memory_ops m k t) \<bind> g"
    and "exec (collapse_tombstone B b k t tss) \<bind> f =
      exec (collapse_tombstone in_memory_ops m k t tss) \<bind> g"
proof -
  have b: "valid b" and m: "imb_valid m" and v: "view b = imb_view m"
    using assms(1) by (auto simp: alike_def)
  have fg: "f b' = g m'" if "valid b'" "imb_valid m'" "view b' = imb_view m'" for b' m'
    using assms(2) that by (simp add: alike_def)
  show "exec (put_committed B b c) \<bind> f = exec (put_committed in_memory_ops m c) \<bind> g"
    by (rule exec_steps_alike [OF put_committed_law [OF b] imb_contract.put_committed_law [OF m, folded v]
        put_committed_total [OF b] imb.put_committed_total [OF m] fg])
  show "exec (put_committed_batch B b cs) \<bind> f = exec (put_committed_batch in_memory_ops m cs) \<bind> g"
    by (rule exec_steps_alike [OF put_committed_batch_law [OF b]
        imb_contract.put_committed_batch_law [OF m, folded v]
        put_committed_batch_total [OF b] imb.put_committed_batch_total [OF m] fg])
  show "exec (remove_committed_version B b k t) \<bind> f =
      exec (remove_committed_version in_memory_ops m k t) \<bind> g"
    by (rule exec_steps_alike [OF remove_committed_version_law [OF b]
        imb_contract.remove_committed_version_law [OF m, folded v]
        remove_committed_version_total [OF b] imb.remove_committed_version_total [OF m] fg])
  show "exec (collapse_tombstone B b k t tss) \<bind> f =
      exec (collapse_tombstone in_memory_ops m k t tss) \<bind> g"
    by (rule exec_steps_alike [OF collapse_tombstone_law [OF b]
        imb_contract.collapse_tombstone_law [OF m, folded v]
        collapse_tombstone_total [OF b] imb.collapse_tombstone_total [OF m] fg])
qed

lemma put_all_alike:
  assumes "alike b m" and "\<And>b' m'. alike b' m' \<Longrightarrow> f b' = g m'"
  shows "put_all B cs b \<bind> f = put_all in_memory_ops cs m \<bind> g"
  using assms(1)
proof (induction cs arbitrary: b m)
  case (Cons c cs)
  show ?case
    using writes_alike(1) [OF Cons.prems Cons.IH, where c = c] by (simp add: put_all_def del: in_memory_ops_sel)
qed (simp add: put_all_def assms(2))

lemmas committed_alike = same_bind_alike reads_alike [THEN read_bind_alike] prefix_scan_bind_alike
  writes_alike put_all_alike

lemma committed_suite_alike:
  assumes "alike b m"
  shows "test_committed_backend_conformance B b = test_committed_backend_conformance in_memory_ops m"
  unfolding test_committed_backend_conformance_def committed_versions_are_ascending_and_cross_u64_def
    committed_batch_and_visibility_are_conformant_def
    committed_key_scans_and_timestamp_pages_are_conformant_def
    committed_removal_and_tombstone_collapse_are_conformant_def Let_def
  using assms
  by (intro arg_cong2 [where f = Cons] refl committed_alike)
    (simp_all add: reads_alike prefix_scans_alike(1) del: in_memory_ops_sel)

end

context total_backend
begin

lemma get_intent_alike: "alike b m \<Longrightarrow> get_intent B b k = get_intent in_memory_ops m k"
  by (simp add: alike_def get_intent_eq imb.get_intent_eq del: in_memory_ops_sel)

lemma intent_writes_alike:
  assumes "alike b m" and "\<And>b' m'. alike b' m' \<Longrightarrow> f b' = g m'"
  shows "exec (put_intent B b i) \<bind> f = exec (put_intent in_memory_ops m i) \<bind> g"
    and "exec (put_intents_batch B b is) \<bind> f = exec (put_intents_batch in_memory_ops m is) \<bind> g"
    and "exec (commit_intents_batch B b cs rs) \<bind> f = exec (commit_intents_batch in_memory_ops m cs rs) \<bind> g"
    and "exec (remove_intents_batch B b rs) \<bind> f = exec (remove_intents_batch in_memory_ops m rs) \<bind> g"
proof -
  have b: "valid b" and m: "imb_valid m" and v: "view b = imb_view m"
    using assms(1) by (auto simp: alike_def)
  have fg: "f b' = g m'" if "valid b'" "imb_valid m'" "view b' = imb_view m'" for b' m'
    using assms(2) that by (simp add: alike_def)
  show "exec (put_intent B b i) \<bind> f = exec (put_intent in_memory_ops m i) \<bind> g"
    by (rule exec_steps_alike [OF put_intent_law [OF b] imb_contract.put_intent_law [OF m, folded v]
        put_intent_total [OF b] imb.put_intent_total [OF m] fg])
  show "exec (put_intents_batch B b is) \<bind> f = exec (put_intents_batch in_memory_ops m is) \<bind> g"
    by (rule exec_steps_alike [OF put_intents_batch_law [OF b]
        imb_contract.put_intents_batch_law [OF m, folded v]
        put_intents_batch_total [OF b] imb.put_intents_batch_total [OF m] fg])
  show "exec (commit_intents_batch B b cs rs) \<bind> f = exec (commit_intents_batch in_memory_ops m cs rs) \<bind> g"
    by (rule exec_steps_alike [OF commit_intents_batch_law [OF b]
        imb_contract.commit_intents_batch_law [OF m, folded v]
        commit_intents_batch_total [OF b] imb.commit_intents_batch_total [OF m] fg])
  show "exec (remove_intents_batch B b rs) \<bind> f = exec (remove_intents_batch in_memory_ops m rs) \<bind> g"
    by (rule exec_steps_alike [OF remove_intents_batch_law [OF b]
        imb_contract.remove_intents_batch_law [OF m, folded v]
        remove_intents_batch_total [OF b] imb.remove_intents_batch_total [OF m] fg])
qed

lemma remove_intent_alike:
  assumes "alike b m" and "\<And>x b' m'. alike b' m' \<Longrightarrow> f x b' = g x m'"
  shows "unwrap_mut (remove_intent B b k txn s) \<bind> (\<lambda>(x, b'). f x b') =
    unwrap_mut (remove_intent in_memory_ops m k txn s) \<bind> (\<lambda>(x, m'). g x m')"
proof -
  have b: "valid b" and m: "imb_valid m" and v: "view b = imb_view m"
    using assms(1) by (auto simp: alike_def)
  have "fst (remove_intent B b k txn s) = Inr (owns (view b) k txn s)"
    by (rule not_isl_Inr [OF remove_intent_total [OF b] remove_intent_result [OF b]])
  moreover have "fst (remove_intent in_memory_ops m k txn s) = Inr (owns (view b) k txn s)"
    unfolding v by (rule not_isl_Inr [OF imb.remove_intent_total [OF m] imb_contract.remove_intent_result [OF m]])
  ultimately show ?thesis
    using assms(2)
    by (intro atomic_steps_alike [OF remove_intent_law [OF b] imb_contract.remove_intent_law [OF m, folded v]])
      (simp_all add: alike_def del: in_memory_ops_sel)
qed

lemma suite_alike:
  assumes "alike b m"
  shows "test_backend_conformance B b = test_backend_conformance in_memory_ops m"
  unfolding test_backend_conformance_def test_ascending_commit_ts_def
    test_all_or_nothing_batch_persistence_def test_intent_batch_persistence_def
    test_strict_intent_identity_def test_all_keys_collation_def test_tombstone_preservation_def
    test_fast_lookups_def test_binary_handling_def test_keys_from_def test_keys_from_prefix_def
    test_get_committed_timestamps_before_def test_collapse_tombstone_def Let_def
  using assms
  by (intro arg_cong2 [where f = Cons] refl committed_alike get_intent_alike [THEN read_bind_alike] intent_writes_alike
      remove_intent_alike)
    (simp_all add: reads_alike get_intent_alike prefix_scans_alike del: in_memory_ops_sel)

end

section \<open>Conforming backends pass\<close>

lemma test_ascending_commit_ts_passes: "test_ascending_commit_ts in_memory_ops in_memory_new = Some ()"
  by code_simp

lemma test_all_or_nothing_batch_persistence_passes: "test_all_or_nothing_batch_persistence in_memory_ops in_memory_new = Some ()"
  by code_simp

lemma test_intent_batch_persistence_passes: "test_intent_batch_persistence in_memory_ops in_memory_new = Some ()"
  by code_simp

lemma test_strict_intent_identity_passes: "test_strict_intent_identity in_memory_ops in_memory_new = Some ()"
  by code_simp

lemma test_all_keys_collation_passes: "test_all_keys_collation in_memory_ops in_memory_new = Some ()"
  by code_simp

lemma test_tombstone_preservation_passes: "test_tombstone_preservation in_memory_ops in_memory_new = Some ()"
  by code_simp

lemma test_fast_lookups_passes: "test_fast_lookups in_memory_ops in_memory_new = Some ()"
  by code_simp

lemma test_binary_handling_passes: "test_binary_handling in_memory_ops in_memory_new = Some ()"
  by code_simp

lemma test_keys_from_passes: "test_keys_from in_memory_ops in_memory_new = Some ()"
  by code_simp

lemma test_keys_from_prefix_passes: "test_keys_from_prefix in_memory_ops in_memory_new = Some ()"
  by code_simp

lemma test_get_committed_timestamps_before_passes: "test_get_committed_timestamps_before in_memory_ops in_memory_new = Some ()"
  by code_simp

lemma test_collapse_tombstone_passes: "test_collapse_tombstone in_memory_ops in_memory_new = Some ()"
  by code_simp

lemma committed_batch_and_visibility_are_conformant_passes: "committed_batch_and_visibility_are_conformant in_memory_ops in_memory_new = Some ()"
  by code_simp

lemma committed_key_scans_and_timestamp_pages_are_conformant_passes: "committed_key_scans_and_timestamp_pages_are_conformant in_memory_ops in_memory_new = Some ()"
  by code_simp

lemma committed_removal_and_tombstone_collapse_are_conformant_passes: "committed_removal_and_tombstone_collapse_are_conformant in_memory_ops in_memory_new = Some ()"
  by code_simp

text \<open>The values are opaque here: only the order of the timestamps around \<open>u64::MAX\<close> matters.\<close>

lemma cross_u64_run:
  "do {
     b \<leftarrow> put_all in_memory_ops [version ''k'' 18446744073709551616 x, version ''k'' 18446744073709551614 y,
            version ''k'' 18446744073709551615 z] in_memory_new;
     versions \<leftarrow> unwrap (get_committed_versions in_memory_ops b (ascii ''k''));
     assert_that (map cv_commit_ts versions = [Timestamp 18446744073709551614,
       Timestamp 18446744073709551615, Timestamp 18446744073709551616])
   } = Some ()"
  by code_simp

lemma committed_versions_are_ascending_and_cross_u64_passes:
  "committed_versions_are_ascending_and_cross_u64 in_memory_ops in_memory_new = Some ()"
proof -
  have boundary: "ucast (- 1 :: u64) = (18446744073709551615 :: u128)"
    by code_simp
  show ?thesis
    using cross_u64_run
    by (simp add: committed_versions_are_ascending_and_cross_u64_def boundary del: in_memory_ops_sel)
qed

lemma in_memory_committed_suite:
  "set (test_committed_backend_conformance in_memory_ops in_memory_new) = {Some ()}"
  by (simp add: test_committed_backend_conformance_def committed_versions_are_ascending_and_cross_u64_passes
      committed_batch_and_visibility_are_conformant_passes
      committed_key_scans_and_timestamp_pages_are_conformant_passes
      committed_removal_and_tombstone_collapse_are_conformant_passes del: in_memory_ops_sel)

lemma in_memory_suite: "set (test_backend_conformance in_memory_ops in_memory_new) = {Some ()}"
  by (simp add: test_backend_conformance_def test_ascending_commit_ts_passes
      test_all_or_nothing_batch_persistence_passes test_intent_batch_persistence_passes
      test_strict_intent_identity_passes test_all_keys_collation_passes test_tombstone_preservation_passes
      test_fast_lookups_passes test_binary_handling_passes test_keys_from_passes
      test_keys_from_prefix_passes test_get_committed_timestamps_before_passes
      test_collapse_tombstone_passes del: in_memory_ops_sel)

end
