(* ===== verification/Committed_Only.thy ===== *)
theory Committed_Only
  imports Mvcc_Conformance
begin

text \<open>
  Backends that store committed versions only and inherit the intent methods of the trait, as the
  documentation of the first conformance suite describes them. The default methods keep the storage
  contract, so all that is proved from it carries over; the engine's intent operations are refused
  without touching the store.
\<close>

section \<open>An implementation of the required methods only\<close>

definition committed_only :: "'b backend \<Rightarrow> 'b backend" where
  "committed_only B =
     B\<lparr>get_intent := default_get_intent,
       put_intent := default_put_intent,
       remove_intent := default_remove_intent,
       put_intents_batch := default_put_intents_batch,
       commit_intents_batch := default_commit_intents_batch,
       remove_intents_batch := default_remove_intents_batch\<rparr>"

definition unlocked :: "('b \<Rightarrow> bool) \<Rightarrow> ('b \<Rightarrow> mvcc_view) \<Rightarrow> 'b \<Rightarrow> bool" where
  "unlocked valid view b \<longleftrightarrow> valid b \<and> locks (view b) = Map.empty"

lemma committed_only_sel [simp]:
  "get_committed_versions (committed_only B) = get_committed_versions B"
  "get_latest_committed (committed_only B) = get_latest_committed B"
  "get_visible_committed (committed_only B) = get_visible_committed B"
  "get_latest_commit_ts (committed_only B) = get_latest_commit_ts B"
  "put_committed (committed_only B) = put_committed B"
  "put_committed_batch (committed_only B) = put_committed_batch B"
  "remove_committed_version (committed_only B) = remove_committed_version B"
  "all_keys (committed_only B) = all_keys B"
  "keys_from (committed_only B) = keys_from B"
  "keys_from_prefix (committed_only B) = keys_from_prefix B"
  "get_committed_timestamps_before (committed_only B) = get_committed_timestamps_before B"
  "collapse_tombstone (committed_only B) = collapse_tombstone B"
  by (simp_all add: committed_only_def)

lemma committed_only_intents [simp]:
  "get_intent (committed_only B) b k = Ok None"
  "put_intent (committed_only B) b i = (Err intents_unsupported, b)"
  "remove_intent (committed_only B) b k txn s = (Ok False, b)"
  "put_intents_batch (committed_only B) b is = (if is = [] then (Ok (), b) else (Err intents_unsupported, b))"
  "commit_intents_batch (committed_only B) b cs rs = (Err intents_unsupported, b)"
  "remove_intents_batch (committed_only B) b rs = (if rs = [] then (Ok (), b) else (Err intents_unsupported, b))"
  by (simp_all add: committed_only_def default_get_intent_def default_put_intent_def
      default_remove_intent_def default_put_intents_batch_def default_commit_intents_batch_def
      default_remove_intents_batch_def)

section \<open>The default methods keep the contract\<close>

lemma unlocked_atomic:
  assumes "atomic_step valid view b out v'" and "locks v' = locks (view b)" and "unlocked valid view b"
  shows "atomic_step (unlocked valid view) view b out v'"
  using assms by (auto simp: atomic_step_def unlocked_def split: prod.splits)

lemma refused_unlocked:
  "unlocked valid view b \<Longrightarrow> isl r \<or> v' = view b \<Longrightarrow> atomic_step (unlocked valid view) view b (r, b) v'"
  by (auto simp: atomic_step_def)

lemma fold_v_put_committed_locks: "locks (fold v_put_committed cs v) = locks v"
  by (induction cs arbitrary: v) simp_all

context committed_store
begin

lemma committed_only_reads: "backend_reads (committed_only B) (unlocked valid view) view"
  by unfold_locales
    (simp_all add: unlocked_def valid_view_ok get_committed_versions_law get_latest_committed_law
      get_visible_committed_law get_latest_commit_ts_law all_keys_law keys_from_law keys_from_prefix_law
      get_committed_timestamps_before_law)

lemma committed_only_contract: "backend_contract (committed_only B) (unlocked valid view) view"
proof (intro backend_contract.intro committed_only_reads backend_contract_axioms.intro)
  fix b i k txn s c t tss x cs rs and is' :: "intent list"
  assume b: "unlocked valid view b"
  then have val: "valid b" and free: "\<not> owns (view b) k txn s"
    by (simp_all add: unlocked_def owns_def)
  show "atomic_step (unlocked valid view) view b (put_intent (committed_only B) b i) (v_put_intent i (view b))"
    and "atomic_step (unlocked valid view) view b (remove_intent (committed_only B) b k txn s)
      (v_remove_intent (k, txn, s) (view b))"
    and "atomic_step (unlocked valid view) view b (put_intents_batch (committed_only B) b is')
      (fold v_put_intent is' (view b))"
    and "atomic_step (unlocked valid view) view b (commit_intents_batch (committed_only B) b cs rs)
      (fold v_remove_intent rs (fold v_put_committed cs (view b)))"
    and "atomic_step (unlocked valid view) view b (remove_intents_batch (committed_only B) b rs)
      (fold v_remove_intent rs (view b))"
    using b free by (auto simp: v_remove_intent_def intro!: refused_unlocked)
  show "x = owns (view b) k txn s" if "fst (remove_intent (committed_only B) b k txn s) = Inr x"
    using that free by simp
  show "atomic_step (unlocked valid view) view b (put_committed (committed_only B) b c) (v_put_committed c (view b))"
    and "atomic_step (unlocked valid view) view b (put_committed_batch (committed_only B) b cs)
      (fold v_put_committed cs (view b))"
    and "atomic_step (unlocked valid view) view b (remove_committed_version (committed_only B) b k t)
      (v_remove_versions k {t} (view b))"
    and "atomic_step (unlocked valid view) view b (collapse_tombstone (committed_only B) b k t tss)
      (v_remove_versions k (insert t (set tss)) (view b))"
    using b put_committed_law [OF val] put_committed_batch_law [OF val]
      remove_committed_version_law [OF val] collapse_tombstone_law [OF val]
    by (auto intro!: unlocked_atomic simp: fold_v_put_committed_locks)
qed

lemma committed_only_store: "committed_store (committed_only B) (unlocked valid view) view"
proof (intro committed_store.intro committed_only_contract committed_store_axioms.intro)
qed (simp_all add: unlocked_def get_committed_versions_total get_latest_committed_total
    get_visible_committed_total get_latest_commit_ts_total all_keys_total keys_from_total
    keys_from_prefix_total keys_from_prefix_refuses get_committed_timestamps_before_total
    put_committed_total put_committed_batch_total remove_committed_version_total collapse_tombstone_total)

lemma committed_suite_passes:
  assumes "valid b" and "vers (view b) = (\<lambda>_. Map.empty)" and "locks (view b) = Map.empty"
  shows "\<forall>t\<in>set (test_committed_backend_conformance B b). t = Some ()"
proof -
  have "alike b in_memory_new"
    using assms by (simp add: alike_def)
  then show ?thesis
    by (simp add: committed_suite_alike in_memory_committed_suite del: in_memory_ops_sel)
qed

end

section \<open>The engine on a committed-only backend\<close>

lemma committed_only_batch_validate:
  "prewrite_batch_validate (committed_only B) b txn s ws n = Inr n' \<Longrightarrow> n' = n"
  by (induction ws arbitrary: n) (auto split: sum.splits option.splits if_splits)

lemma committed_only_abort_collect: "abort_batch_collect (committed_only B) b txn s ks = Ok []"
  by (induction ks) simp_all

lemma committed_only_prewrite:
  "prewrite (committed_only B) b txn s k m =
     (case get_latest_commit_ts B b k of
        Inl msg \<Rightarrow> (Err (prewrite_error.Backend msg), b)
      | Inr latest \<Rightarrow>
          (Err (if \<exists>t. latest = Some t \<and> s < t then prewrite_error.WriteConflict
                else prewrite_error.Backend intents_unsupported), b))"
  by (auto simp: prewrite_def split: sum.splits option.splits)

lemma committed_only_commit: "commit (committed_only B) b txn k s c = (Err commit_error.IntentNotFound, b)"
  by (simp add: commit_def)

lemma committed_only_abort: "abort (committed_only B) b txn k s = (Ok (), b)"
  by (simp add: abort_def)

lemma committed_only_prewrite_batch:
  "\<exists>err. prewrite_batch (committed_only B) b txn s ws = (Err err, b)"
  by (auto simp: prewrite_batch_def dest: committed_only_batch_validate split: sum.splits option.splits)

lemma committed_only_commit_batch:
  "\<exists>err. commit_batch (committed_only B) b txn s c ks = (Err err, b)"
  by (auto simp: commit_batch_def neq_Nil_conv commit_batch_key_def split: sum.splits option.splits)

lemma committed_only_abort_batch:
  "abort_batch (committed_only B) b txn s ks =
     (case find_duplicate {} ks of
        None \<Rightarrow> (Ok (), b)
      | Some k \<Rightarrow> (Err (batch_abort_error.DuplicateKeyInBatch k), b))"
  by (cases ks) (simp_all add: abort_batch_def committed_only_abort_collect del: find_duplicate.simps(2) find_duplicate_distinct
      split: option.splits)

interpretation com: committed_store "committed_only in_memory_ops" "unlocked imb_valid imb_view" imb_view
  by (rule imb.committed_only_store)

lemma in_memory_new_unlocked [simp]: "unlocked imb_valid imb_view in_memory_new"
  by (simp add: unlocked_def)

end
