(* ===== verification/Backend_Equivalence.thy ===== *)
theory Backend_Equivalence
  imports Committed_Only
begin

text \<open>
  The engine is a function of the view: on a backend that never fails, whether an action is accepted and
  which view it leaves are determined by the view before. So the engine behaves alike on all such
  backends, and the in-memory one is as good a reference as any.
\<close>

section \<open>Actions as functions on views\<close>

definition decide :: "bool \<Rightarrow> mvcc_view \<Rightarrow> mvcc_view \<Rightarrow> bool \<times> mvcc_view" where
  "decide ok v' v = (ok, if ok then v' else v)"

fun spec_action :: "action \<Rightarrow> mvcc_view \<Rightarrow> bool \<times> mvcc_view" where
  "spec_action (DirectBatch c ws) v = decide (writes_ok v c ws) (write_view v c ws) v"
| "spec_action (GuardedBatch c gs ws) v =
     decide (writes_ok v c ws \<and> gs \<noteq> [] \<and> (\<forall>g\<in>set gs. guard_holds v c g)) (write_view v c ws) v"
| "spec_action (Prewrite txn s k m) v = map_prod (\<lambda>r. \<not> isl r) id (spec_prewrite v txn s k m)"
| "spec_action (Commit txn k s c) v = map_prod (\<lambda>r. \<not> isl r) id (spec_commit v txn k s c)"
| "spec_action (Abort txn k s) v = (True, spec_abort v txn k s)"
| "spec_action (PrewriteBatch txn s ws) v =
     decide (prewrite_batch_fresh v s ws \<or> prewrite_batch_replay v txn s ws)
       (if prewrite_batch_fresh v s ws then prewrite_view v txn s ws else v) v"
| "spec_action (CommitBatch txn s c ks) v = decide (commit_batch_ok v txn s c ks) (commit_view v c (set ks)) v"
| "spec_action (AbortBatch txn s ks) v = decide (distinct ks) (abort_view v txn s (set ks)) v"
| "spec_action (Gc sp) v = (True, compact_view sp False v)"

definition spec_schedule :: "action list \<Rightarrow> mvcc_view \<Rightarrow> mvcc_view" where
  "spec_schedule as v = fold (\<lambda>a. snd \<circ> spec_action a) as v"

lemma batch_exact_decides:
  assumes "batch_exact valid view b out ok v' reason" and "forget_err out = Some (r, b')"
  shows "valid b' \<and> (\<not> isl r, view b') = decide ok v' (view b)"
  using assms by (cases out) (auto simp: batch_exact_def forget_err_def decide_def split: if_splits)

context total_backend
begin

lemma apply_action_exact:
  assumes "valid e" and "apply_action B a e = Some (r, e')"
  shows "valid e' \<and> (\<not> isl r, view e') = spec_action a (view e)"
proof (cases a)
  case (DirectBatch c ws)
  then show ?thesis
    using batch_exact_decides [OF apply_direct_batch_exact [OF assms(1)]] assms(2) by simp
next
  case (GuardedBatch c gs ws)
  then show ?thesis
    using batch_exact_decides [OF apply_guarded_batch_exact [OF assms(1)]] assms(2) by simp
next
  case (Prewrite txn s k m)
  then obtain r' where "prewrite B e txn s k m = (r', e')" "r = map_sum (\<lambda>_. ()) (\<lambda>_. ()) r'"
    using assms(2) by (auto simp: forget_err_Some)
  then show ?thesis
    using prewrite_exact [OF assms(1), of txn s k m r' e', THEN conjunct1]
      prewrite_exact [OF assms(1), of txn s k m r' e', THEN conjunct2, symmetric] Prewrite
    by simp
next
  case (Commit txn k s c)
  then obtain r' where "commit B e txn k s c = (r', e')" "r = map_sum (\<lambda>_. ()) (\<lambda>_. ()) r'"
    using assms(2) by (auto simp: forget_err_Some)
  then show ?thesis
    using commit_exact [OF assms(1), of txn k s c r' e', THEN conjunct1]
      commit_exact [OF assms(1), of txn k s c r' e', THEN conjunct2, symmetric] Commit
    by simp
next
  case (Abort txn k s)
  then obtain r' where "abort B e txn k s = (r', e')" "r = map_sum (\<lambda>_. ()) (\<lambda>_. ()) r'"
    using assms(2) by (auto simp: forget_err_Some)
  then show ?thesis
    using abort_exact [OF assms(1), of txn k s r' e'] Abort by simp
next
  case (PrewriteBatch txn s ws)
  then show ?thesis
    using batch_exact_decides [OF prewrite_batch_exact [OF assms(1)]] assms(2) by simp
next
  case (CommitBatch txn s c ks)
  then show ?thesis
    using batch_exact_decides [OF commit_batch_exact [OF assms(1)]] assms(2) by simp
next
  case (AbortBatch txn s ks)
  then show ?thesis
    using batch_exact_decides [OF abort_batch_exact [OF assms(1)]] assms(2) by simp
next
  case (Gc sp)
  obtain stats e'' where "gc B e sp schedule_gc_options = Some (Inr stats, e'')" "valid e''"
    "view e'' = compact_view sp (collapse_final_tombstones schedule_gc_options) (view e)"
    using gc_exact [OF assms(1) schedule_budget_ok, of sp] by blast
  then show ?thesis
    using assms(2) Gc by (auto simp: forget_err_def schedule_gc_options_def)
qed

lemma apply_schedule_exact:
  assumes "valid e"
  shows "\<exists>e'. apply_schedule B e as = Some e' \<and> valid e' \<and> view e' = spec_schedule as (view e)"
  using assms
proof (induction "as" arbitrary: e)
  case (Cons a as)
  obtain r e1 where a: "apply_action B a e = Some (r, e1)"
    using apply_action_returns [OF Cons.prems] by blast
  have e1: "valid e1" "view e1 = snd (spec_action a (view e))"
    using apply_action_exact [OF Cons.prems a, THEN conjunct1]
      apply_action_exact [OF Cons.prems a, THEN conjunct2, symmetric] by simp_all
  show ?case
    using Cons.IH [OF e1(1)] a e1(2) by (auto simp: spec_schedule_def)
qed (simp add: spec_schedule_def)

text \<open>Whether the next action is accepted depends on the view only.\<close>

lemma apply_action_verdict:
  assumes "valid e"
  shows "map_option (isl \<circ> fst) (apply_action B a e) = Some (\<not> fst (spec_action a (view e)))"
proof -
  obtain r e1 where a: "apply_action B a e = Some (r, e1)"
    using apply_action_returns [OF assms] by blast
  then show ?thesis
    using apply_action_exact [OF assms a, THEN conjunct2, symmetric] by simp
qed

end

end
