(* ===== verification/Replay.thy ===== *)
theory Replay
  imports Backend_Equivalence
begin

text \<open>
  Replays. Running an action a second time, at once, changes nothing; and an action that committed
  versions is rejected ever after, whatever was done in between, because the newest version of its keys
  never gets older: schedules do not collapse tombstones.
\<close>

section \<open>At once\<close>

lemma write_view_dom:
  assumes "k \<in> pw_key ` set ws"
  shows "c \<in> dom (vers (write_view v c ws) k)"
proof -
  have "k \<in> dom (map_of (map (\<lambda>w. (pw_key w, pw_value w)) ws))"
    using assms by (simp add: dom_map_of_conv_image_fst image_image)
  then show ?thesis
    by (auto simp: write_view_def)
qed

lemma spec_prewrite_replay:
  assumes "spec_prewrite v txn s k m = (r, v')"
  shows "spec_prewrite v' txn s k m = (r, v')"
proof (cases "locks v k")
  case None
  with assms show ?thesis
    by (cases "no_newer (vers v k) s") (auto simp: spec_prewrite_def v_put_intent_def)
next
  case (Some i)
  with assms have "v' = v"
    by (simp add: spec_prewrite_def)
  with assms show ?thesis
    by simp
qed

lemma spec_abort_replay: "spec_abort (spec_abort v txn k s) txn k s = spec_abort v txn k s"
  by (auto simp: spec_abort_def owns_def)

lemma abort_view_replay: "abort_view (abort_view v txn s ks) txn s ks = abort_view v txn s ks"
proof -
  have "locks (abort_view (abort_view v txn s ks) txn s ks) = locks (abort_view v txn s ks)"
    by (auto simp: abort_view_def owns_def fun_eq_iff)
  then show ?thesis
    by (simp add: abort_view_def)
qed

lemma prewrite_view_replays:
  assumes "prewrite_batch_fresh v s ws"
  shows "prewrite_batch_replay (prewrite_view v txn s ws) txn s ws"
    and "\<not> prewrite_batch_fresh (prewrite_view v txn s ws) s ws"
proof -
  have d: "distinct (map pw_key ws)" and ne: "ws \<noteq> []"
    using assms by (simp_all add: prewrite_batch_fresh_def)
  have "locks (prewrite_view v txn s ws) (pw_key w) = Some (write_intent txn s w)" if "w \<in> set ws" for w
  proof -
    have "map_of (map (\<lambda>w. (pw_key w, write_intent txn s w)) ws) (pw_key w) = Some (write_intent txn s w)"
      using that d by (intro map_of_is_SomeI) (auto simp: o_def)
    then show ?thesis
      by (simp add: prewrite_view_def)
  qed
  then show "prewrite_batch_replay (prewrite_view v txn s ws) txn s ws"
    and "\<not> prewrite_batch_fresh (prewrite_view v txn s ws) s ws"
    using d ne by (auto simp: prewrite_batch_replay_def write_replays_def owns_def write_intent_def
        prewrite_batch_fresh_def neq_Nil_conv)
qed

lemma prewrite_fresh_not_replay:
  "prewrite_batch_replay v txn s ws \<Longrightarrow> \<not> prewrite_batch_fresh v s ws"
  by (auto simp: prewrite_batch_replay_def prewrite_batch_fresh_def write_replays_def owns_def neq_Nil_conv)

text \<open>The keys an action commits to.\<close>

fun committed_to :: "action \<Rightarrow> key set" where
  "committed_to (DirectBatch c ws) = pw_key ` set ws"
| "committed_to (GuardedBatch c gs ws) = pw_key ` set ws"
| "committed_to (Commit txn k s c) = {k}"
| "committed_to (CommitBatch txn s c ks) = set ks"
| "committed_to _ = {}"

lemma accepted_commit:
  assumes "fst (spec_action a v)" and "action_commit_ts a = Some c"
  shows "committed_to a \<noteq> {}" and "k \<in> committed_to a \<Longrightarrow> c \<in> dom (vers (snd (spec_action a v)) k)"
  using assms
  by (cases a; auto simp: decide_def writes_ok_def write_view_dom commit_batch_ok_def commit_view_def spec_commit_def
      split: option.splits if_splits)+

lemma overtaken_commit:
  assumes "action_commit_ts a = Some c" and "k \<in> committed_to a" and "t \<in> dom (vers v k)" and "c \<le> t"
  shows "\<not> fst (spec_action a v)"
proof -
  have "\<not> above_all (vers v k) c"
    using assms(3,4) by (auto simp: above_all_def not_less)
  then show ?thesis
    using assms(1,2)
    by (cases a) (auto simp: decide_def writes_ok_def commit_batch_ok_def spec_commit_def split: option.splits)
qed

lemma rejected_unchanged:
  assumes "\<not> fst (spec_action a v)"
  shows "snd (spec_action a v) = v"
proof (cases a)
  case (Prewrite txn s k m)
  then show ?thesis
    using assms spec_prewrite_Err [of v txn s k m]
    by (cases "spec_prewrite v txn s k m"; cases "fst (spec_prewrite v txn s k m)") auto
next
  case (Commit txn k s c)
  then show ?thesis
    using assms spec_commit_Err [of v txn k s c]
    by (cases "spec_commit v txn k s c"; cases "fst (spec_commit v txn k s c)") auto
qed (use assms in \<open>auto simp: decide_def\<close>)

lemma spec_action_replay:
  assumes "view_ok v"
  shows "snd (spec_action a (snd (spec_action a v))) = snd (spec_action a v)"
    and "fst (spec_action a (snd (spec_action a v))) \<longleftrightarrow> fst (spec_action a v) \<and> action_commit_ts a = None"
proof -
  have "spec_action a (snd (spec_action a v)) =
      (fst (spec_action a v) \<and> action_commit_ts a = None, snd (spec_action a v))"
  proof (cases "fst (spec_action a v)")
    case False
    then show ?thesis
      using rejected_unchanged [OF False] by (simp add: prod_eq_iff)
  next
    case True
    show ?thesis
    proof (cases "action_commit_ts a")
      case (Some c)
      obtain k where k: "k \<in> committed_to a" "c \<in> dom (vers (snd (spec_action a v)) k)"
        using accepted_commit [OF True Some] by blast
      have "\<not> fst (spec_action a (snd (spec_action a v)))"
        using overtaken_commit [OF Some k order.refl] .
      then show ?thesis
        using rejected_unchanged [of a "snd (spec_action a v)"] Some by (simp add: prod_eq_iff)
    next
      case None
      then show ?thesis
      proof (cases a)
        case (Prewrite txn s k m)
        obtain r v' where "spec_prewrite v txn s k m = (r, v')"
          by fastforce
        then show ?thesis
          using spec_prewrite_replay True Prewrite by fastforce
      next
        case (Gc sp)
        have "vers (compact_view sp False (compact_view sp False v)) = vers (compact_view sp False v)"
          using assms by (simp add: compact_view_def compact_history_idem)
        then show ?thesis
          using Gc by (simp add: compact_view_def)
      qed (use True None in \<open>auto simp: spec_abort_replay abort_view_replay decide_def
          prewrite_view_replays prewrite_fresh_not_replay split: prod.splits\<close>)
    qed
  qed
  then show "snd (spec_action a (snd (spec_action a v))) = snd (spec_action a v)"
    and "fst (spec_action a (snd (spec_action a v))) \<longleftrightarrow> fst (spec_action a v) \<and> action_commit_ts a = None"
    by simp_all
qed

section \<open>Ever after\<close>

text \<open>No step of a schedule makes the newest version of a key older.\<close>

lemma view_step_overtaken:
  assumes "view_step a v v'" and "view_ok v" and "view_ok v'" and "t \<in> dom (vers v k)"
  shows "\<exists>t'\<in>dom (vers v' k). t \<le> t'"
  using view_step_vers [OF assms(1), of k]
proof (elim disjE exE conjE)
  fix sp
  assume "gc_reduces sp False v v'"
  then have same: "visible (vers v' k) (Timestamp (- 1)) = visible (vers v k) (Timestamp (- 1))"
    by (rule gc_reduces_visible [OF _ assms(2,3)]) simp
  obtain t' x where vis: "visible (vers v k) (Timestamp (- 1)) = Some (t', x)"
    using bspec [OF iffD1 [OF visible_None_iff [of "vers v k" "Timestamp (- 1)"]] assms(4)] timestamp_le_max [of t]
    by (cases "visible (vers v k) (Timestamp (- 1))") (auto simp: not_less [symmetric])
  then have "t \<le> t'"
    using assms(2,4) by (auto simp: visible_Some_iff)
  moreover have "t' \<in> dom (vers v' k)"
    using vis same assms(3) by (auto simp: visible_Some_iff)
  ultimately show ?thesis
    by blast
qed (use assms(4) in auto)

context backend_contract
begin

lemma apply_schedule_overtaken:
  assumes "valid e" and "apply_schedule B e as = Some e'" and "t \<in> dom (vers (view e) k)"
  shows "\<exists>t'\<in>dom (vers (view e') k). t \<le> t'"
  using assms
proof (induction "as" arbitrary: e t)
  case (Cons a as)
  then obtain r e1 where a: "apply_action B a e = Some (r, e1)" and rest: "apply_schedule B e1 as = Some e'"
    by (auto simp: Option.bind_eq_Some_conv)
  have e1: "valid e1" "view_step a (view e) (view e1)"
    using apply_action_simulates [OF Cons.prems(1) a] by auto
  obtain t1 where t1: "t1 \<in> dom (vers (view e1) k)" "t \<le> t1"
    using view_step_overtaken [OF e1(2) _ _ Cons.prems(3)] valid_view_ok Cons.prems(1) e1(1) by blast
  obtain t2 where "t2 \<in> dom (vers (view e') k)" "t1 \<le> t2"
    using Cons.IH [OF e1(1) rest t1(1)] by blast
  with t1(2) show ?case
    by (intro bexI [of _ t2]) auto
qed auto

end

context total_backend
begin

lemma apply_action_replay:
  assumes "valid e" and "apply_action B a e = Some (r, e1)" and "apply_action B a e1 = Some (r2, e2)"
  shows "valid e2 \<and> view e2 = view e1 \<and> (isl r2 \<longleftrightarrow> isl r \<or> action_commit_ts a \<noteq> None)"
proof -
  note first = apply_action_exact [OF assms(1,2)]
  have second: "valid e2 \<and> (\<not> isl r2, view e2) = spec_action a (view e1)"
    using apply_action_exact [OF conjunct1 [OF first] assms(3)] .
  have "view e1 = snd (spec_action a (view e))" "isl r \<longleftrightarrow> \<not> fst (spec_action a (view e))"
    using conjunct2 [OF first, symmetric] by simp_all
  moreover have "view e2 = snd (spec_action a (view e1))" "isl r2 \<longleftrightarrow> \<not> fst (spec_action a (view e1))"
    using conjunct2 [OF second, symmetric] by simp_all
  ultimately show ?thesis
    using second spec_action_replay [OF valid_view_ok [OF assms(1)], of a] by simp
qed

lemma accepted_commit_final:
  assumes "valid e" and "apply_action B a e = Some (Inr u, e1)" and "action_commit_ts a = Some c"
    and "apply_schedule B e1 bs = Some e2"
  shows "\<exists>e3. apply_action B a e2 = Some (Inl (), e3) \<and> valid e3 \<and> view e3 = view e2"
proof -
  note first = apply_action_exact [OF assms(1,2)]
  have e1: "valid e1" and ok: "fst (spec_action a (view e))" and v1: "view e1 = snd (spec_action a (view e))"
    using conjunct2 [OF first, symmetric] conjunct1 [OF first] by simp_all
  obtain k where k: "k \<in> committed_to a" "c \<in> dom (vers (view e1) k)"
    using accepted_commit [OF ok assms(3)] v1 by auto
  obtain t where t: "t \<in> dom (vers (view e2) k)" "c \<le> t"
    using apply_schedule_overtaken [OF e1 assms(4) k(2)] by blast
  have e2: "valid e2"
    using apply_schedule_simulates [OF e1, of bs] assms(4) by auto
  obtain r e3 where a: "apply_action B a e2 = Some (r, e3)"
    using apply_action_returns [OF e2] by blast
  have rejected: "\<not> fst (spec_action a (view e2))"
    by (rule overtaken_commit [OF assms(3) k(1) t])
  then have "valid e3" "isl r" "view e3 = view e2"
    using conjunct2 [OF apply_action_exact [OF e2 a], symmetric] conjunct1 [OF apply_action_exact [OF e2 a]]
      rejected_unchanged [OF rejected] by simp_all
  then show ?thesis
    using a by (cases r) auto
qed

end

end
