(* ===== verification/Suite_Properties.thy ===== *)
theory Suite_Properties
  imports Replay Spy_Backend
begin

text \<open>
  The properties that quantify over backends: all conforming backends behave as the in-memory one, pass the
  conformance suites, and refuse intents if they do not store them; and on each of them replays are harmless.
\<close>

text \<open>
  C11. Every backend that keeps the storage contract and does not fail passes both conformance suites,
  whatever its representation: none of the sixteen tests panics when its factory returns an empty store.
\<close>

theorem conforming_backends_pass_suites:
  assumes "total_backend B valid view" and "valid b"
    and "vers (view b) = (\<lambda>_. Map.empty)" and "locks (view b) = Map.empty"
  shows "\<forall>t\<in>set (test_backend_conformance B b @ test_committed_backend_conformance B b). t = Some ()"
proof -
  have store: "committed_store B valid view"
    using assms(1) by (rule total_backend.axioms(1))
  have "committed_store.alike valid view b in_memory_new"
    using assms(2-4) by (simp add: committed_store.alike_def [OF store])
  then show ?thesis
    using committed_store.committed_suite_passes [OF store assms(2-4)]
    by (simp add: total_backend.suite_alike [OF assms(1)] in_memory_suite ball_Un del: in_memory_ops_sel)
qed

theorem conforming_backends_pass_suites_witness:
  "set (test_backend_conformance in_memory_ops in_memory_new) = {Some ()}"
proof -
  have "set (test_backend_conformance in_memory_ops in_memory_new) \<subseteq> {Some ()}"
    using conforming_backends_pass_suites [OF imb.total_backend_axioms in_memory_new_valid] by auto
  moreover have "test_backend_conformance in_memory_ops in_memory_new \<noteq> []"
    by (simp add: test_backend_conformance_def)
  ultimately show ?thesis
    by (metis set_empty subset_singletonD)
qed

text \<open>
  C36. On a backend that implements only the required methods of the trait and inherits the intent methods, the
  storage contract still holds, and the committed-version suite passes on an empty store. No intent operation of the engine
  changes the state: a prewrite is refused, with a write conflict or because intents are not supported, a commit finds
  no intent, batches of prewrites or commits are refused with some error; an abort has nothing to do and succeeds, and so does
  a batch of aborts, unless it names a key twice, which is its only error.
\<close>

theorem committed_only_backends_refuse_intents:
  assumes "committed_store B valid view" and "valid b" and "locks (view b) = Map.empty"
  shows "committed_store (committed_only B) (unlocked valid view) view \<and>
    prewrite (committed_only B) b txn s k m =
      (Err (if no_newer (vers (view b) k) s then prewrite_error.Backend intents_unsupported
            else prewrite_error.WriteConflict), b) \<and>
    commit (committed_only B) b txn k s c = (Err commit_error.IntentNotFound, b) \<and>
    abort (committed_only B) b txn k s = (Ok (), b) \<and>
    (\<exists>err. prewrite_batch (committed_only B) b txn s ws = (Err err, b)) \<and>
    (\<exists>err. commit_batch (committed_only B) b txn s c ks = (Err err, b)) \<and>
    (\<exists>r. abort_batch (committed_only B) b txn s ks = (r, b) \<and>
       (if distinct ks then r = Ok () else \<exists>j. r = Err (batch_abort_error.DuplicateKeyInBatch j))) \<and>
    (vers (view b) = (\<lambda>_. Map.empty) \<longrightarrow>
       (\<forall>t\<in>set (test_committed_backend_conformance (committed_only B) b). t = Some ()))"
proof -
  note store = committed_store.committed_only_store [OF assms(1)]
  have b: "unlocked valid view b"
    using assms(2,3) by (simp add: unlocked_def)
  have "view_ok (view b)"
    using assms(1,2) by (metis backend_contract_def backend_reads.valid_view_ok committed_store_def)
  then have "(\<exists>t. newest_ts (vers (view b) k) = Some t \<and> s < t) \<longleftrightarrow> \<not> no_newer (vers (view b) k) s"
    by (auto simp: no_newer_newest not_le split: option.splits)
  moreover have "\<exists>r. abort_batch (committed_only B) b txn s ks = (r, b) \<and>
      (if distinct ks then r = Ok () else \<exists>j. r = Err (batch_abort_error.DuplicateKeyInBatch j))"
  proof (cases "distinct ks")
    case True
    then have none: "find_duplicate {} ks = None"
      by simp
    show ?thesis
      using True by (simp add: committed_only_abort_batch none del: find_duplicate_distinct)
  next
    case False
    then obtain j where "find_duplicate {} ks = Some j"
      by fastforce
    then show ?thesis
      using False unfolding committed_only_abort_batch by simp
  qed
  ultimately show ?thesis
    using committed_store.get_latest_commit_ts_eq [OF assms(1,2), of k] store
      committed_store.committed_suite_passes [OF store b _ assms(3)]
    by (simp add: committed_only_prewrite committed_only_commit committed_only_abort
        committed_only_prewrite_batch committed_only_commit_batch)
qed

theorem committed_only_backends_refuse_intents_witness:
  "prewrite (committed_only in_memory_ops) ex_put (TxnId 1) (Timestamp 6) [1] Delete =
     (Err (prewrite_error.Backend intents_unsupported), ex_put)"
  using committed_only_backends_refuse_intents
    [OF imb.committed_store_axioms ex_valid(1), of "TxnId 1" "Timestamp 6" "[1]" Delete]
  by (simp add: ex_views no_newer_def)

text \<open>
  C12. The engine is independent of the backend: on any backend that keeps the contract and never fails, every
  schedule ends in a state with the same view as on the in-memory backend started from the same view; from there all
  reads return the same, snapshots are the same, and every further action is accepted by both or rejected by both.
\<close>

theorem schedules_agree_across_backends:
  assumes "total_backend B valid view" and "valid b" and "imb_valid m" and "view b = imb_view m"
  shows "\<exists>b' m'. apply_schedule B b as = Some b' \<and> apply_schedule in_memory_ops m as = Some m' \<and>
    view b' = imb_view m' \<and> snapshot B b' = snapshot in_memory_ops m' \<and>
    read_with_version B b' k ts = read_with_version in_memory_ops m' k ts \<and>
    read_own_write B b' k txn s ts = read_own_write in_memory_ops m' k txn s ts \<and>
    map_option (isl \<circ> fst) (apply_action B a b') = map_option (isl \<circ> fst) (apply_action in_memory_ops a m')"
proof -
  obtain b' where b': "apply_schedule B b as = Some b'" "valid b'" "view b' = spec_schedule as (view b)"
    using total_backend.apply_schedule_exact [OF assms(1,2)] by blast
  obtain m' where m': "apply_schedule in_memory_ops m as = Some m'" "imb_valid m'"
      "imb_view m' = spec_schedule as (imb_view m)"
    using imb.apply_schedule_exact [OF assms(3)] by blast
  have v: "view b' = imb_view m'"
    using b'(3) m'(3) assms(4) by simp
  note on_b = total_backend.snapshot_eq [OF assms(1) b'(2)] total_backend.read_with_version_eq [OF assms(1) b'(2)]
    total_backend.read_own_write_eq [OF assms(1) b'(2)] total_backend.apply_action_verdict [OF assms(1) b'(2)]
  note on_m = imb.snapshot_eq [OF m'(2)] imb.read_with_version_eq [OF m'(2)] imb.read_own_write_eq [OF m'(2)]
    imb.apply_action_verdict [OF m'(2)]
  show ?thesis
    by (intro exI conjI, rule b'(1), rule m'(1), rule v) (simp_all only: on_b on_m v)
qed

theorem schedules_agree_across_backends_witness:
  "\<exists>b m. apply_schedule spy_ops spy_new [ex_write (Timestamp 5) (Some [7]), Gc (Timestamp 7)] = Some b \<and>
     apply_schedule in_memory_ops in_memory_new [ex_write (Timestamp 5) (Some [7]), Gc (Timestamp 7)] = Some m \<and>
     read_with_version spy_ops b [1] (Timestamp 9) = read_with_version in_memory_ops m [1] (Timestamp 9)"
proof -
  have "spy_valid spy_new" "spy_view spy_new = imb_view in_memory_new"
    by (simp_all add: spy_valid_def spy_view_def spy_new_def)
  then show ?thesis
    using schedules_agree_across_backends [OF spy.total_backend_axioms _ in_memory_new_valid,
        of spy_new "[ex_write (Timestamp 5) (Some [7]), Gc (Timestamp 7)]" "[1]" "Timestamp 9"]
    by blast
qed

text \<open>
  C13. An action can be replayed at once without harm, on any backend that keeps the contract and never fails: the second
  run leaves the view as it is. A rejected action is rejected again; an accepted one is accepted again if it is a prewrite, an
  abort or a collection, and rejected if it committed versions.
\<close>

theorem replay_changes_nothing:
  assumes "total_backend B valid view" and "valid e"
    and "apply_action B a e = Some (r, e1)" and "apply_action B a e1 = Some (r2, e2)"
  shows "view e2 = view e1 \<and> (isl r2 \<longleftrightarrow> isl r \<or> action_commit_ts a \<noteq> None)"
  using total_backend.apply_action_replay [OF assms] by blast

lemma ex_write_run:
  "apply_action in_memory_ops (ex_write (Timestamp 5) (Some [7])) in_memory_new = Some (Ok (), ex_put)"
proof -
  obtain r where "apply_action in_memory_ops (ex_write (Timestamp 5) (Some [7])) in_memory_new = Some (r, ex_put)"
    using ex_runs(1) by (auto simp: Option.bind_eq_Some_conv simp del: apply_action.simps)
  moreover have "map_option (isl \<circ> fst) (apply_action in_memory_ops (ex_write (Timestamp 5) (Some [7])) in_memory_new) =
      Some False"
    by (simp add: imb.apply_action_verdict ex_write_def decide_def writes_ok_def above_all_def del: apply_action.simps)
  ultimately show ?thesis
    by (cases r) auto
qed

theorem replay_changes_nothing_witness:
  "\<exists>r2 e2. apply_action in_memory_ops (ex_write (Timestamp 5) (Some [7])) ex_put = Some (r2, e2) \<and> isl r2 \<and>
     imb_view e2 = imb_view ex_put"
proof -
  obtain r2 e2 where again: "apply_action in_memory_ops (ex_write (Timestamp 5) (Some [7])) ex_put = Some (r2, e2)"
    using imb_contract.apply_action_returns [OF ex_valid(1)] by blast
  have "action_commit_ts (ex_write (Timestamp 5) (Some [7])) = Some (Timestamp 5)"
    by (simp add: ex_write_def)
  then show ?thesis
    using replay_changes_nothing [OF imb.total_backend_axioms in_memory_new_valid ex_write_run again] again by auto
qed

text \<open>
  C14. A commit is applied at most once: after a direct or guarded batch, a commit or a commit batch was accepted, the same
  action is rejected without a change of the view, whatever schedule ran in between.
\<close>

theorem accepted_commits_are_final:
  assumes "total_backend B valid view" and "valid e"
    and "apply_action B a e = Some (Ok (), e1)" and "action_commit_ts a = Some c"
    and "apply_schedule B e1 bs = Some e2"
  shows "\<exists>e3. apply_action B a e2 = Some (Err (), e3) \<and> view e3 = view e2"
  using total_backend.accepted_commit_final [OF assms] by blast

theorem accepted_commits_are_final_witness:
  "\<exists>e2 e3. apply_schedule in_memory_ops ex_put [Gc (Timestamp 7)] = Some e2 \<and>
     apply_action in_memory_ops (ex_write (Timestamp 5) (Some [7])) e2 = Some (Err (), e3) \<and> imb_view e3 = imb_view e2"
proof -
  obtain e2 where run: "apply_schedule in_memory_ops ex_put [Gc (Timestamp 7)] = Some e2"
    using imb_contract.apply_schedule_simulates [OF ex_valid(1)] by blast
  have "action_commit_ts (ex_write (Timestamp 5) (Some [7])) = Some (Timestamp 5)"
    by (simp add: ex_write_def)
  then show ?thesis
    using accepted_commits_are_final [OF imb.total_backend_axioms in_memory_new_valid ex_write_run _ run] run by blast
qed

end
