(* ===== verification/Load_Sim.thy ===== *)
theory Load_Sim
  imports Committed_Only
begin

text \<open>
  The deterministic command-load simulation \<open>examples/command_load_sim.rs\<close>: a pseudo-random mix of
  reads, direct writes, guarded increments (applied at once or queued and applied later), two-key
  transactions and incremental collections, all against one in-memory engine. A run is \<open>None\<close> if an
  \<open>unwrap\<close>, a remainder by zero or the overflow of a counter panics, or if the search for a second
  key does not end. The weights of a mix and the thresholds they add up to are 64-bit words and wrap as in a release
  build, in which the program is documented to run; with overflow checks a mix whose weights do not fit would panic. Wall-clock measurements are left out and the report comes later; the counters of the
  statistics, which cannot come near the range of their type, are natural numbers.
\<close>

section \<open>Data\<close>

definition KEYSPACE :: u64 where "KEYSPACE = 20000"
definition HOT_KEYS :: u64 where "HOT_KEYS = 32"
definition INITIAL_KEYS :: u64 where "INITIAL_KEYS = 20000"
definition OPS :: u64 where "OPS = 100000"
definition GC_RETENTION :: u64 where "GC_RETENTION = 2000"

record pending_incr =
  due_op :: u64
  pi_key :: key
  pi_read_ts :: timestamp
  pi_expected_value :: "val option"
  pi_new_value :: val

record stats =
  reads :: nat
  sets :: nat
  deletes :: nat
  msets :: nat
  incr_immediate :: nat
  incr_delayed :: nat
  txns :: nat
  guard_conflicts :: nat
  guard_retries :: nat
  applied_pending :: nat
  gc_runs :: nat
  gc_removed :: nat

definition stats_default :: stats where
  "stats_default =
     \<lparr>reads = 0, sets = 0, deletes = 0, msets = 0, incr_immediate = 0, incr_delayed = 0, txns = 0,
      guard_conflicts = 0, guard_retries = 0, applied_pending = 0, gc_runs = 0, gc_removed = 0\<rparr>"

record workload_mix =
  mix_name :: string
  enable_gc :: bool
  hot_key_percent :: u64
  mix_read :: u64
  mix_set :: u64
  mix_del :: u64
  mix_mset :: u64
  mix_incr :: u64
  mix_txn :: u64

text \<open>The local variables of \<open>run_simulation\<close>; the deque of pending increments is a list.\<close>

record sim =
  sim_engine :: in_memory
  sim_rng :: u64
  sim_stats :: stats
  sim_pending :: "pending_incr list"
  sim_next_ts :: u128
  sim_cursor :: "incremental_gc_cursor option"

section \<open>Random numbers and keys\<close>

definition lcg_next :: "u64 \<Rightarrow> u64" where
  "lcg_next rng = rng * 6364136223846793005 + 1"

definition lcg_range :: "u64 \<Rightarrow> u64 \<Rightarrow> (u64 \<times> u64) option" where
  "lcg_range rng upper =
     (if upper = 0 then None else Some (lcg_next rng mod upper, lcg_next rng))"

definition sim_key :: "u64 \<Rightarrow> key" where
  "sim_key n = ascii (''key:'' @ pad_zeros 8 (show_nat (unat n)))"

definition choose_key :: "u64 \<Rightarrow> u64 \<Rightarrow> (key \<times> u64) option" where
  "choose_key rng hot =
     do {
       (roll, rng) \<leftarrow> lcg_range rng 100;
       (n, rng) \<leftarrow> lcg_range rng (if roll < hot then HOT_KEYS else KEYSPACE);
       Some (sim_key n, rng)
     }"

definition parse_counter :: "val option \<Rightarrow> u64" where
  "parse_counter v = (case v \<bind> from_utf8 \<bind> parse_u64 of Some n \<Rightarrow> n | None \<Rightarrow> 0)"

text \<open>The decimal text of the incremented counter.\<close>

definition next_counter :: "val option \<Rightarrow> val option" where
  "next_counter v = map_option (\<lambda>n. ascii (show_nat (unat n))) (checked_inc (parse_counter v))"

section \<open>Guarded increments\<close>

definition apply_guarded_incr ::
  "in_memory \<Rightarrow> timestamp \<Rightarrow> pending_incr \<Rightarrow> (batch_error + unit) \<times> in_memory" where
  "apply_guarded_incr e commit_ts p =
     apply_guarded_batch in_memory_ops e commit_ts
       [ExpectedValue (pi_key p) (pi_read_ts p) (pi_expected_value p)]
       [\<lparr>pw_key = pi_key p, pw_value = Some (pi_new_value p)\<rparr>]"

definition retry_incr ::
  "in_memory \<Rightarrow> key \<Rightarrow> timestamp \<Rightarrow> timestamp \<Rightarrow> ((batch_error + unit) \<times> in_memory) option" where
  "retry_incr e k read_ts commit_ts =
     do {
       current \<leftarrow> unwrap (read in_memory_ops e k read_ts);
       next_value \<leftarrow> next_counter current;
       Some (apply_guarded_batch in_memory_ops e commit_ts
         [ExpectedValue k read_ts current] [\<lparr>pw_key = k, pw_value = Some next_value\<rparr>])
     }"

definition guard_failed :: "batch_error + unit \<Rightarrow> bool" where
  "guard_failed r =
     (case r of
        Inl (batch_error.GuardFailedNewerVersion k read_ts actual) \<Rightarrow> True
      | Inl (batch_error.GuardFailedValueMismatch k) \<Rightarrow> True
      | Inl (batch_error.GuardFailedVersionMismatch k expected actual) \<Rightarrow> True
      | _ \<Rightarrow> False)"

text \<open>The branch taken when the guard of a queued increment no longer holds.\<close>

definition retry_pending :: "key \<Rightarrow> sim \<Rightarrow> sim option" where
  "retry_pending k s =
     (let st = sim_stats s; next_ts = sim_next_ts s in
      do {
        out \<leftarrow> retry_incr (sim_engine s) k (Timestamp (next_ts - 1)) (Timestamp next_ts);
        e \<leftarrow> exec out;
        Some (s\<lparr>sim_engine := e, sim_next_ts := next_ts + 1,
                sim_stats := st\<lparr>guard_conflicts := guard_conflicts st + 1,
                                guard_retries := guard_retries st + 1\<rparr>\<rparr>)
      })"

text \<open>One queued increment: inside the run only a failed guard is retried, after it every error.\<close>

definition apply_pending :: "(batch_error + unit \<Rightarrow> bool) \<Rightarrow> pending_incr \<Rightarrow> sim \<Rightarrow> sim option" where
  "apply_pending retryable p s =
     (let st = sim_stats s;
          out = apply_guarded_incr (sim_engine s) (Timestamp (sim_next_ts s)) p;
          s' = s\<lparr>sim_engine := snd out, sim_next_ts := sim_next_ts s + 1,
                 sim_stats := st\<lparr>applied_pending := applied_pending st + 1\<rparr>\<rparr>
      in if retryable (fst out) then retry_pending (pi_key p) s'
         else do { _ \<leftarrow> unwrap (fst out); Some s' })"

fun drain_due :: "u64 \<Rightarrow> pending_incr list \<Rightarrow> sim \<Rightarrow> sim option" where
  "drain_due op [] s = Some (s\<lparr>sim_pending := []\<rparr>)"
| "drain_due op (p # ps) s =
     (if due_op p \<le> op then apply_pending guard_failed p s \<bind> drain_due op ps
      else Some (s\<lparr>sim_pending := p # ps\<rparr>))"

fun drain_all :: "pending_incr list \<Rightarrow> sim \<Rightarrow> sim option" where
  "drain_all [] s = Some (s\<lparr>sim_pending := []\<rparr>)"
| "drain_all (p # ps) s = apply_pending isl p s \<bind> drain_all ps"

section \<open>The operations of the mix\<close>

definition sim_read :: "workload_mix \<Rightarrow> sim \<Rightarrow> sim option" where
  "sim_read mix s =
     (let st = sim_stats s in
      do {
        (read_key, rng) \<leftarrow> choose_key (sim_rng s) (hot_key_percent mix);
        _ \<leftarrow> unwrap (read in_memory_ops (sim_engine s) read_key (Timestamp (sim_next_ts s - 1)));
        Some (s\<lparr>sim_rng := rng, sim_stats := st\<lparr>reads := reads st + 1\<rparr>\<rparr>)
      })"

text \<open>A direct batch at the next timestamp.\<close>

definition sim_write :: "physical_write list \<Rightarrow> sim \<Rightarrow> sim option" where
  "sim_write writes s =
     do {
       e \<leftarrow> exec (apply_direct_batch in_memory_ops (sim_engine s) (Timestamp (sim_next_ts s)) writes);
       Some (s\<lparr>sim_engine := e, sim_next_ts := sim_next_ts s + 1\<rparr>)
     }"

definition sim_set :: "workload_mix \<Rightarrow> u64 \<Rightarrow> sim \<Rightarrow> sim option" where
  "sim_set mix op s =
     (let st = sim_stats s in
      do {
        (write_key, rng) \<leftarrow> choose_key (sim_rng s) (hot_key_percent mix);
        sim_write [\<lparr>pw_key = write_key, pw_value = Some (ascii (''v:'' @ show_nat (unat op)))\<rparr>]
          (s\<lparr>sim_rng := rng, sim_stats := st\<lparr>sets := sets st + 1\<rparr>\<rparr>)
      })"

definition sim_del :: "workload_mix \<Rightarrow> sim \<Rightarrow> sim option" where
  "sim_del mix s =
     (let st = sim_stats s in
      do {
        (write_key, rng) \<leftarrow> choose_key (sim_rng s) (hot_key_percent mix);
        sim_write [\<lparr>pw_key = write_key, pw_value = None\<rparr>]
          (s\<lparr>sim_rng := rng, sim_stats := st\<lparr>deletes := deletes st + 1\<rparr>\<rparr>)
      })"

definition mset_write :: "u64 \<Rightarrow> u64 \<Rightarrow> u64 \<Rightarrow> physical_write" where
  "mset_write op base i =
     \<lparr>pw_key = sim_key (base + i),
      pw_value = Some (ascii (''m:'' @ show_nat (unat op) @ '':'' @ show_nat (unat i)))\<rparr>"

definition sim_mset :: "u64 \<Rightarrow> sim \<Rightarrow> sim option" where
  "sim_mset op s =
     (let st = sim_stats s in
      do {
        (base, rng) \<leftarrow> lcg_range (sim_rng s) (KEYSPACE - 4);
        sim_write (map (mset_write op base) [0, 1, 2, 3])
          (s\<lparr>sim_rng := rng, sim_stats := st\<lparr>msets := msets st + 1\<rparr>\<rparr>)
      })"

definition sim_incr :: "workload_mix \<Rightarrow> u64 \<Rightarrow> sim \<Rightarrow> sim option" where
  "sim_incr mix op s =
     (let st = sim_stats s; read_ts = Timestamp (sim_next_ts s - 1) in
      do {
        (incr_key, rng) \<leftarrow> choose_key (sim_rng s) (hot_key_percent mix);
        current \<leftarrow> unwrap (read in_memory_ops (sim_engine s) incr_key read_ts);
        next_value \<leftarrow> next_counter current;
        (roll, rng) \<leftarrow> lcg_range rng 100;
        if roll < 40 then
          do {
            (delay, rng) \<leftarrow> lcg_range rng 96;
            Some (s\<lparr>sim_rng := rng, sim_stats := st\<lparr>incr_delayed := incr_delayed st + 1\<rparr>,
                    sim_pending := sim_pending s @
                      [\<lparr>due_op = op + 32 + delay, pi_key = incr_key, pi_read_ts = read_ts,
                        pi_expected_value = current, pi_new_value = next_value\<rparr>]\<rparr>)
          }
        else
          do {
            e \<leftarrow> exec (apply_guarded_batch in_memory_ops (sim_engine s) (Timestamp (sim_next_ts s))
                   [ExpectedValue incr_key read_ts current]
                   [\<lparr>pw_key = incr_key, pw_value = Some next_value\<rparr>]);
            Some (s\<lparr>sim_engine := e, sim_next_ts := sim_next_ts s + 1, sim_rng := rng,
                    sim_stats := st\<lparr>incr_immediate := incr_immediate st + 1\<rparr>\<rparr>)
          }
      })"

text \<open>\<open>while a == b\<close> draw another second key.\<close>

partial_function (option) other_key :: "key \<Rightarrow> key \<Rightarrow> u64 \<Rightarrow> (key \<times> u64) option" where
  "other_key a b rng =
     (if a = b then
        case lcg_range rng KEYSPACE of
          None \<Rightarrow> None
        | Some (n, rng') \<Rightarrow> other_key a (sim_key ((n + HOT_KEYS) mod KEYSPACE)) rng'
      else Some (b, rng))"

declare other_key.simps [code]

definition txn_write :: "u64 \<Rightarrow> key \<Rightarrow> string \<Rightarrow> physical_write" where
  "txn_write op k part =
     \<lparr>pw_key = k, pw_value = Some (ascii (''txn:'' @ show_nat (unat op) @ '':'' @ part))\<rparr>"

definition sim_txn :: "workload_mix \<Rightarrow> u64 \<Rightarrow> sim \<Rightarrow> sim option" where
  "sim_txn mix op s =
     (let st = sim_stats s; txn_id = TxnId (op + 1); start_ts = Timestamp (sim_next_ts s) in
      do {
        (a, rng) \<leftarrow> choose_key (sim_rng s) (hot_key_percent mix);
        (b, rng) \<leftarrow> choose_key rng (hot_key_percent mix);
        (b, rng) \<leftarrow> other_key a b rng;
        e \<leftarrow> exec (prewrite_batch in_memory_ops (sim_engine s) txn_id start_ts
               [txn_write op a ''a'', txn_write op b ''b'']);
        e \<leftarrow> exec (commit_batch in_memory_ops e txn_id start_ts (Timestamp (sim_next_ts s + 1)) [a, b]);
        Some (s\<lparr>sim_engine := e, sim_next_ts := sim_next_ts s + 2, sim_rng := rng,
                sim_stats := st\<lparr>txns := txns st + 1\<rparr>\<rparr>)
      })"

section \<open>Collection and the run\<close>

definition sim_gc_options :: gc_options where
  "sim_gc_options =
     \<lparr>budget = \<lparr>max_keys = 50, max_versions = 200\<rparr>, collapse_final_tombstones = False\<rparr>"

definition saturating_sub :: "u128 \<Rightarrow> u128 \<Rightarrow> u128" where
  "saturating_sub a b = (if a < b then 0 else a - b)"

definition sim_gc :: "sim \<Rightarrow> sim option" where
  "sim_gc s =
     (let st = sim_stats s;
          safe_point = Timestamp (saturating_sub (sim_next_ts s) (ucast GC_RETENTION)) in
      do {
        (res, e) \<leftarrow> unwrap_mut (gc_incremental in_memory_ops (sim_engine s) safe_point (sim_cursor s) sim_gc_options);
        Some (s\<lparr>sim_engine := e,
                sim_stats := st\<lparr>gc_removed := gc_removed st + versions_removed res, gc_runs := gc_runs st + 1\<rparr>,
                sim_cursor := (if gc_done res then None else Some (gc_cursor res))\<rparr>)
      })"

definition total_weight :: "workload_mix \<Rightarrow> u64" where
  "total_weight mix = mix_read mix + mix_set mix + mix_del mix + mix_mset mix + mix_incr mix + mix_txn mix"

definition sim_command :: "workload_mix \<Rightarrow> u64 \<Rightarrow> u64 \<Rightarrow> sim \<Rightarrow> sim option" where
  "sim_command mix op roll s =
     (let r_thresh = mix_read mix;
          s_thresh = r_thresh + mix_set mix;
          d_thresh = s_thresh + mix_del mix;
          m_thresh = d_thresh + mix_mset mix;
          i_thresh = m_thresh + mix_incr mix
      in if roll < r_thresh then sim_read mix s
         else if roll < s_thresh then sim_set mix op s
         else if roll < d_thresh then sim_del mix s
         else if roll < m_thresh then sim_mset op s
         else if roll < i_thresh then sim_incr mix op s
         else sim_txn mix op s)"

definition sim_op :: "workload_mix \<Rightarrow> u64 \<Rightarrow> sim \<Rightarrow> sim option" where
  "sim_op mix op s =
     do {
       s \<leftarrow> drain_due op (sim_pending s) s;
       (roll, rng) \<leftarrow> lcg_range (sim_rng s) (total_weight mix);
       s \<leftarrow> sim_command mix op roll (s\<lparr>sim_rng := rng\<rparr>);
       if enable_gc mix \<and> op > 0 \<and> op mod 10 = 0 then sim_gc s else Some s
     }"

text \<open>\<open>0..n\<close> as a list.\<close>

definition up_to :: "u64 \<Rightarrow> u64 list" where
  "up_to n = map of_nat [0..<unat n]"

definition sim_setup :: "sim option" where
  "sim_setup =
     do {
       e \<leftarrow> exec (apply_direct_batch in_memory_ops in_memory_new (Timestamp 1)
              (map (\<lambda>i. \<lparr>pw_key = sim_key i, pw_value = Some (ascii ''0'')\<rparr>) (up_to INITIAL_KEYS)));
       Some \<lparr>sim_engine = e, sim_rng = 0x5eed1234cafebabe, sim_stats = stats_default,
             sim_pending = [], sim_next_ts = 2, sim_cursor = None\<rparr>
     }"

definition run_simulation :: "workload_mix \<Rightarrow> sim option" where
  "run_simulation mix =
     do {
       s \<leftarrow> sim_setup;
       s \<leftarrow> for_each (sim_op mix) (up_to OPS) s;
       drain_all (sim_pending s) s
     }"

text \<open>The mixes \<open>main\<close> runs one after the other.\<close>

definition default_mix :: workload_mix where
  "default_mix =
     \<lparr>mix_name = ''no_gc'', enable_gc = False, hot_key_percent = 85,
      mix_read = 65, mix_set = 12, mix_del = 4, mix_mset = 4, mix_incr = 13, mix_txn = 2\<rparr>"

definition main_mixes :: "workload_mix list" where
  "main_mixes =
     [default_mix,
      default_mix\<lparr>mix_name := ''incremental_gc'', enable_gc := True\<rparr>,
      default_mix\<lparr>mix_name := ''hot_key_heavy'', enable_gc := True, hot_key_percent := 99\<rparr>,
      default_mix\<lparr>mix_name := ''read_heavy'', enable_gc := True, mix_read := 90, mix_set := 5,
                  mix_del := 1, mix_mset := 1, mix_incr := 2, mix_txn := 1\<rparr>,
      default_mix\<lparr>mix_name := ''write_heavy'', enable_gc := True, mix_read := 10, mix_set := 70,
                  mix_del := 5, mix_mset := 10, mix_incr := 3, mix_txn := 2\<rparr>,
      default_mix\<lparr>mix_name := ''guarded_heavy'', enable_gc := True, mix_read := 20, mix_set := 5,
                  mix_del := 1, mix_mset := 4, mix_incr := 65, mix_txn := 5\<rparr>,
      default_mix\<lparr>mix_name := ''txn_heavy'', enable_gc := True, mix_read := 30, mix_set := 10,
                  mix_del := 2, mix_mset := 3, mix_incr := 5, mix_txn := 50\<rparr>]"

end
