(* ===== verification/Load_Sim_Laws.thy ===== *)
theory Load_Sim_Laws
  imports Load_Sim
begin

text \<open>
  Why the simulation does not panic. Between two commands the store holds no intent, every version is
  older than the clock, and the counter in a version is at most its timestamp. Every command keeps this,
  advances the clock by at most two, and finds its batches accepted.
\<close>

section \<open>Words\<close>

lemma unat_plus_u128:
  fixes w :: u128
  assumes "unat w + m < 2 ^ 128"
  shows "unat (w + of_nat m) = unat w + m"
proof -
  have m: "unat (of_nat m :: u128) = m"
    using assms by (simp add: unat_of_nat)
  with assms have "unat w + unat (of_nat m :: u128) < 2 ^ LENGTH(128)"
    by simp
  then show ?thesis
    using iffD1 [OF unat_add_lem] m by metis
qed

lemmas unat_clock = unat_plus_u128 [where m = 1, simplified] unat_plus_u128 [where m = 2, simplified]

section \<open>Keys\<close>

lemma ascii_simps [simp]: "ascii [] = []" "ascii (c # s) = of_char c # ascii s"
  by (simp_all add: ascii_def)

lemma sim_key_inject [simp]: "sim_key m = sim_key n \<longleftrightarrow> m = n"
proof -
  have "unat (w :: u64) < 2 ^ 64" for w
    using unsigned_less [of w, where ?'a = nat] by simp
  then show ?thesis
    using padded_inject [of "unat m" "unat n" 8] by (simp add: sim_key_def word_unat_eq_iff)
qed

text \<open>The multiplier is odd, so consecutive states differ in parity, and so do the keys they select.\<close>

lemma even_lcg_next: "even (unat (lcg_next rng)) \<longleftrightarrow> odd (unat rng)"
proof -
  have "unat (lcg_next rng) = (unat rng * 6364136223846793005 + 1) mod 2 ^ 64"
    by (simp add: lcg_next_def unat_word_ariths mod_simps)
  then show ?thesis
    by (simp add: dvd_mod_iff)
qed

lemma even_redraw: "even (unat ((s mod KEYSPACE + HOT_KEYS) mod KEYSPACE)) \<longleftrightarrow> even (unat s)"
proof -
  have r: "unat (s mod KEYSPACE) = unat s mod 20000"
    by (simp add: KEYSPACE_def unat_mod)
  then have "unat (s mod KEYSPACE + HOT_KEYS) = unat s mod 20000 + 32"
    by (simp add: HOT_KEYS_def unat_word_ariths)
  then show ?thesis
    by (simp add: KEYSPACE_def unat_mod dvd_mod_iff)
qed

lemma other_key_steps:
  "a \<noteq> b \<Longrightarrow> other_key a b rng = Some (b, rng)"
  "other_key a a rng =
     other_key a (sim_key ((lcg_next rng mod KEYSPACE + HOT_KEYS) mod KEYSPACE)) (lcg_next rng)"
  by (subst other_key.simps, simp add: lcg_range_def KEYSPACE_def)+

lemma other_key_total: "\<exists>b' rng'. other_key a b rng = Some (b', rng') \<and> b' \<noteq> a"
proof -
  let ?s = "lcg_next rng" and ?s' = "lcg_next (lcg_next rng)"
  let ?k = "\<lambda>s. sim_key ((s mod KEYSPACE + HOT_KEYS) mod KEYSPACE)"
  have "?k ?s \<noteq> ?k ?s'"
    using even_redraw [of ?s] even_redraw [of ?s'] even_lcg_next [of ?s] by (metis sim_key_inject)
  then consider "a \<noteq> b" | "a = b" "a \<noteq> ?k ?s" | "a = b" "a = ?k ?s" "a \<noteq> ?k ?s'"
    by metis
  then show ?thesis
  proof cases
    case 2
    then show ?thesis
      using other_key_steps(1) [of a "?k ?s" ?s] other_key_steps(2) [of a rng] by auto
  next
    case 3
    then have "other_key a b rng = other_key a a ?s"
      using other_key_steps(2) [of a rng] by simp
    then show ?thesis
      using 3 other_key_steps(1) [of a "?k ?s'" ?s'] other_key_steps(2) [of a ?s] by auto
  qed (use other_key_steps(1) in auto)
qed

section \<open>Counters\<close>

lemma parse_counter_None [simp]: "parse_counter None = 0"
  by (simp add: parse_counter_def)

lemma parse_counter_text:
  "parse_counter (Some (ascii (''v:'' @ s))) = 0"
  "parse_counter (Some (ascii (''m:'' @ s))) = 0"
  "parse_counter (Some (ascii (''txn:'' @ s))) = 0"
  "parse_counter (Some (ascii ''0'')) = 0"
  by (simp_all add: parse_counter_def from_utf8_def ascii_def parse_u64_non_digit is_digit_def parse_u64_def)

lemma parse_counter_to_string: "parse_counter (Some (ascii (show_nat (unat n)))) = n"
  using parse_u64_utf8 [OF parse_u64_to_string [of n]] by (simp add: parse_counter_def parse_u64_to_string)

lemma next_counter_Some:
  assumes "unat (parse_counter x) < 2 ^ 64 - 1"
  obtains y where "next_counter x = Some y" "unat (parse_counter (Some y)) = unat (parse_counter x) + 1"
proof
  let ?n = "parse_counter x + 1"
  have max: "parse_counter x \<noteq> - 1"
    using assms by (auto simp: unsigned_minus_1_eq_mask mask_eq_exp_minus_1)
  then show "next_counter x = Some (ascii (show_nat (unat ?n)))"
    by (simp add: next_counter_def checked_inc_def)
  show "unat (parse_counter (Some (ascii (show_nat (unat ?n))))) = unat (parse_counter x) + 1"
    unfolding parse_counter_to_string using unat_plus_one [OF max] by simp
qed

section \<open>The store between two commands\<close>

definition store_ok :: "nat \<Rightarrow> in_memory \<Rightarrow> bool" where
  "store_ok N e \<longleftrightarrow>
     imb_valid e \<and> locks (imb_view e) = Map.empty \<and>
     (\<forall>k t x. vers (imb_view e) k t = Some x \<longrightarrow>
        unat (ts_val t) < N \<and> unat (parse_counter x) \<le> unat (ts_val t))"

lemma store_ok_mono: "store_ok N e \<Longrightarrow> N \<le> M \<Longrightarrow> store_ok M e"
  by (fastforce simp: store_ok_def)

lemma store_ok_above:
  assumes "store_ok N e" and "N \<le> unat n"
  shows "above_all (vers (imb_view e) k) (Timestamp n)" and "no_newer (vers (imb_view e) k) (Timestamp n)"
proof -
  have "t < Timestamp n" if "t \<in> dom (vers (imb_view e) k)" for t
    using assms that by (fastforce simp: store_ok_def less_timestamp_def word_less_nat_alt)
  then show "above_all (vers (imb_view e) k) (Timestamp n)" "no_newer (vers (imb_view e) k) (Timestamp n)"
    by (auto simp: above_all_def no_newer_def intro: less_imp_le)
qed

lemma store_ok_read:
  assumes "store_ok N e" and "0 < N"
  obtains "read in_memory_ops e k ts = Inr (visible_value (vers (imb_view e) k) ts)"
    "unat (parse_counter (visible_value (vers (imb_view e) k) ts)) < N"
proof
  let ?h = "vers (imb_view e) k"
  have e: "imb_valid e" and bound: "\<And>t x. ?h t = Some x \<Longrightarrow> unat (ts_val t) < N \<and> unat (parse_counter x) \<le> unat (ts_val t)"
    using assms(1) by (auto simp: store_ok_def)
  show "read in_memory_ops e k ts = Inr (visible_value ?h ts)"
    using e by (rule imb.read_eq)
  show "unat (parse_counter (visible_value ?h ts)) < N"
  proof (cases "visible ?h ts")
    case (Some v)
    then have "?h (fst v) = Some (snd v)"
      using visible_Some_iff [of ?h ts "fst v" "snd v"] imb_reads.finite_vers [OF e, of k] by simp
    from bound [OF this] show ?thesis
      using Some by (simp add: visible_value_def)
  qed (use assms(2) in \<open>simp add: visible_value_def\<close>)
qed

lemma store_ok_write:
  assumes "store_ok (unat n) e" and "imb_valid e'"
    and "imb_view e' = write_view (imb_view e) (Timestamp n) ws"
    and "\<And>w. w \<in> set ws \<Longrightarrow> unat (parse_counter (pw_value w)) \<le> unat n"
  shows "store_ok (unat n + 1) e'"
  using assms
  by (fastforce simp: store_ok_def write_view_def split: option.splits if_splits dest!: map_of_SomeD)

lemma store_writes_ok:
  assumes "store_ok (unat n) e" and "ws \<noteq> []" and "distinct (map pw_key ws)"
  shows "writes_ok (imb_view e) (Timestamp n) ws"
  using assms store_ok_above(1) [OF assms(1)] by (simp add: writes_ok_def store_ok_def)

lemma store_ok_direct:
  assumes "store_ok (unat n) e" and "ws \<noteq> []" and "distinct (map pw_key ws)"
    and "\<And>w. w \<in> set ws \<Longrightarrow> unat (parse_counter (pw_value w)) \<le> unat n"
  obtains e' where "apply_direct_batch in_memory_ops e (Timestamp n) ws = (Ok (), e')"
    "store_ok (unat n + 1) e'"
proof -
  have "imb_valid e"
    using assms(1) by (simp add: store_ok_def)
  note spec = imb.apply_direct_batch_exact [OF this, of "Timestamp n" ws]
  obtain r e' where call: "apply_direct_batch in_memory_ops e (Timestamp n) ws = (r, e')"
    by fastforce
  then have "r = Ok ()" and e': "imb_valid e'" "imb_view e' = write_view (imb_view e) (Timestamp n) ws"
    using spec store_writes_ok [OF assms(1-3)] by (simp_all add: batch_exact_def)
  then show ?thesis
    using that [of e'] call store_ok_write [OF assms(1) e' assms(4)] by simp
qed

text \<open>A guarded write at the clock either succeeds or fails its guard, and succeeds if the value read last stands.\<close>

lemma store_ok_guarded:
  assumes "store_ok (unat n) e" and "r < Timestamp n" and "unat (parse_counter (Some y)) \<le> unat n"
    and "apply_guarded_batch in_memory_ops e (Timestamp n) [ExpectedValue k r x]
      [\<lparr>pw_key = k, pw_value = Some y\<rparr>] = (res, e')"
  shows "store_ok (unat n + 1) e'" and "res = Ok () \<or> guard_failed res"
    and "no_newer (vers (imb_view e) k) r \<Longrightarrow> visible_value (vers (imb_view e) k) r = x \<Longrightarrow> res = Ok ()"
proof -
  let ?w = "[\<lparr>pw_key = k, pw_value = Some y\<rparr>] :: physical_write list" and ?g = "ExpectedValue k r x"
  have e: "imb_valid e" and free: "locks (imb_view e) = Map.empty"
    using assms(1) by (simp_all add: store_ok_def)
  have ok: "writes_ok (imb_view e) (Timestamp n) ?w"
    using assms(1) by (intro store_writes_ok) simp_all
  note spec = imb.apply_guarded_batch_exact [OF e, of "Timestamp n" "[?g]" ?w]
  have holds: "guard_holds (imb_view e) (Timestamp n) ?g \<longleftrightarrow>
      no_newer (vers (imb_view e) k) r \<and> visible_value (vers (imb_view e) k) r = x"
    using assms(2) free by (simp add: guard_holds_def)
  have late: "\<not> Timestamp n \<le> t" if "vers (imb_view e) k t = Some z" for t z
    using store_ok_above(1) [OF assms(1), of n k] that by (auto simp: above_all_def not_le)
  have failed: "guard_failed (Err err)" if "batch_error_reason (imb_view e) (Timestamp n) [?g] ?w err" for err
    using that assms(2) free by (cases err) (auto simp: guard_failed_def dest: late split: if_splits)
  show "res = Ok () \<or> guard_failed res"
    using spec assms(4) ok failed by (auto simp: batch_exact_def split: if_splits)
  show "res = Ok ()" if "no_newer (vers (imb_view e) k) r" "visible_value (vers (imb_view e) k) r = x"
    using spec assms(4) ok holds that by (simp add: batch_exact_def)
  show "store_ok (unat n + 1) e'"
  proof (cases "guard_holds (imb_view e) (Timestamp n) ?g")
    case True
    then have "imb_valid e'" "imb_view e' = write_view (imb_view e) (Timestamp n) ?w"
      using spec assms(4) ok by (simp_all add: batch_exact_def)
    then show ?thesis
      using assms(3) by (intro store_ok_write [OF assms(1)]) auto
  next
    case False
    then have "imb_valid e'" "imb_view e' = imb_view e"
      using spec assms(4) ok by (simp_all add: batch_exact_def)
    then have "store_ok (unat n) e'"
      using assms(1) by (simp add: store_ok_def)
    then show ?thesis
      by (rule store_ok_mono) simp
  qed
qed

lemma unat_pred_u128: "0 < unat n \<Longrightarrow> unat (n - 1) = unat n - 1" for n :: u128
  by (metis unat_minus_one unat_0 less_numeral_extra(3))

text \<open>Reading a counter just below the clock, incrementing it, and writing it back at the clock succeeds.\<close>

lemma store_ok_incr:
  assumes "store_ok (unat n) e" and "0 < unat n" and "unat n < 2 ^ 63"
  obtains x y e' where "read in_memory_ops e k (Timestamp (n - 1)) = Inr x" "next_counter x = Some y"
    "unat (parse_counter (Some y)) \<le> unat n"
    "apply_guarded_batch in_memory_ops e (Timestamp n) [ExpectedValue k (Timestamp (n - 1)) x]
       [\<lparr>pw_key = k, pw_value = Some y\<rparr>] = (Ok (), e')"
    "store_ok (unat n + 1) e'"
proof -
  let ?h = "vers (imb_view e) k" and ?r = "Timestamp (n - 1)"
  have pred: "unat (n - 1) = unat n - 1"
    using assms(2) by (rule unat_pred_u128)
  obtain rd: "read in_memory_ops e k ?r = Inr (visible_value ?h ?r)"
    and bound: "unat (parse_counter (visible_value ?h ?r)) < unat n"
    using store_ok_read [OF assms(1,2)] .
  then have "unat (parse_counter (visible_value ?h ?r)) < 2 ^ 64 - 1"
    using assms(3) by simp
  then obtain y where y: "next_counter (visible_value ?h ?r) = Some y"
      "unat (parse_counter (Some y)) = unat (parse_counter (visible_value ?h ?r)) + 1"
    by (rule next_counter_Some)
  have below: "?r < Timestamp n"
    using pred assms(2) by (simp add: word_less_nat_alt)
  have "no_newer ?h ?r"
    using assms(1,2) pred by (fastforce simp: no_newer_def store_ok_def less_eq_timestamp_def word_le_nat_alt)
  moreover obtain res e' where call: "apply_guarded_batch in_memory_ops e (Timestamp n)
      [ExpectedValue k ?r (visible_value ?h ?r)] [\<lparr>pw_key = k, pw_value = Some y\<rparr>] = (res, e')"
    by fastforce
  ultimately have "res = Ok ()" "store_ok (unat n + 1) e'"
    using store_ok_guarded [OF assms(1) below _ call] y(2) bound by simp_all
  then show ?thesis
    using that [OF rd y(1)] y(2) bound call by simp
qed

text \<open>A transaction that prewrites two keys at the clock commits them at the next timestamp.\<close>

lemma store_ok_txn:
  assumes "store_ok (unat n) e" and "unat n + 2 < 2 ^ 128" and "a \<noteq> b"
    and "parse_counter (Some x) = 0" and "parse_counter (Some y) = 0"
  obtains e1 e2 where
    "prewrite_batch in_memory_ops e txn (Timestamp n)
       [\<lparr>pw_key = a, pw_value = Some x\<rparr>, \<lparr>pw_key = b, pw_value = Some y\<rparr>] = (Ok (), e1)"
    "commit_batch in_memory_ops e1 txn (Timestamp n) (Timestamp (n + 1)) [a, b] = (Ok (), e2)"
    "store_ok (unat n + 2) e2"
proof -
  let ?ws = "[\<lparr>pw_key = a, pw_value = Some x\<rparr>, \<lparr>pw_key = b, pw_value = Some y\<rparr>] :: physical_write list"
  let ?s = "Timestamp n" and ?c = "Timestamp (n + 1)"
  have e: "imb_valid e" and free: "locks (imb_view e) = Map.empty"
    using assms(1) by (simp_all add: store_ok_def)
  have clock: "unat (n + 1) = unat n + 1"
    using assms(2) by (simp add: unat_clock)
  obtain r1 e1 where pre: "prewrite_batch in_memory_ops e txn ?s ?ws = (r1, e1)"
    by fastforce
  have "prewrite_batch_fresh (imb_view e) ?s ?ws"
    using assms(1,3) free by (simp add: prewrite_batch_fresh_def store_ok_above(2))
  then have r1: "r1 = Ok ()" and e1: "imb_valid e1" "imb_view e1 = prewrite_view (imb_view e) txn ?s ?ws"
    using imb.prewrite_batch_exact [OF e, of txn ?s ?ws] pre by (simp_all add: batch_exact_def)
  obtain r2 e2 where com: "commit_batch in_memory_ops e1 txn ?s ?c [a, b] = (r2, e2)"
    by fastforce
  have "commit_batch_ok (imb_view e1) txn ?s ?c [a, b]"
    using assms(1,3) free clock store_ok_above(1) [OF assms(1), of "n + 1"]
    by (auto simp: commit_batch_ok_def e1(2) prewrite_view_def owns_def write_intent_def word_less_nat_alt)
  then have r2: "r2 = Ok ()" and e2: "imb_valid e2" "imb_view e2 = commit_view (imb_view e1) ?c {a, b}"
    using imb.commit_batch_exact [OF e1(1), of txn ?s ?c "[a, b]"] com by (simp_all add: batch_exact_def)
  have "vers (imb_view e2) k = (if k \<in> {a, b} then (vers (imb_view e) k)(?c \<mapsto> Some (if k = a then x else y))
      else vers (imb_view e) k)" for k
    using assms(3) by (auto simp: e2(2) e1(2) commit_view_def prewrite_view_def write_intent_def
        write_mutation_def fun_eq_iff)
  moreover have "locks (imb_view e2) = Map.empty"
    using free by (auto simp: e2(2) e1(2) commit_view_def prewrite_view_def fun_eq_iff)
  ultimately have "store_ok (unat n + 2) e2"
    using assms(1,4,5) e2(1) clock
    by (fastforce simp: store_ok_def split: if_splits)
  then show ?thesis
    using that pre com r1 r2 by simp
qed

lemma sim_gc_budget: "budget_ok (budget sim_gc_options)"
  by (simp add: budget_ok_def sim_gc_options_def)

lemma store_ok_gc:
  assumes "store_ok N e"
  obtains res e' where "gc_incremental in_memory_ops e sp cursor sim_gc_options = (Ok res, e')" "store_ok N e'"
proof -
  have e: "imb_valid e"
    using assms by (simp add: store_ok_def)
  obtain res e' where call: "gc_incremental in_memory_ops e sp cursor sim_gc_options = (Ok res, e')"
    using imb.gc_incremental_total [OF e sim_gc_budget] .
  have "imb_valid e'" and red: "gc_reduces sp False (imb_view e) (imb_view e')"
    using imb_contract.gc_incremental_law [OF e sim_gc_budget, of sp cursor] call
    by (auto simp: gc_step_post_def gc_safe_def sim_gc_options_def)
  then have "store_ok N e'"
    using assms gc_reduces_locks [OF red] by (fastforce simp: store_ok_def gc_reduces_def map_le_def dom_def)
  with call show ?thesis
    by (rule that)
qed

section \<open>The invariant of a run\<close>

text \<open>
  After \<open>c\<close> commands with \<open>ps\<close> still queued: the clock has moved by at most two per command, the store is as
  above, queued increments were read before the clock, every command is counted once, every delayed
  increment is queued or applied, and every failed guard has been retried once.
\<close>

definition pending_ok :: "nat \<Rightarrow> pending_incr \<Rightarrow> bool" where
  "pending_ok N p \<longleftrightarrow>
     unat (ts_val (pi_read_ts p)) < N \<and> unat (parse_counter (Some (pi_new_value p))) \<le> N"

definition commands :: "stats \<Rightarrow> nat" where
  "commands st = reads st + sets st + deletes st + msets st + incr_immediate st + incr_delayed st + txns st"

definition tally_ok :: "nat \<Rightarrow> nat \<Rightarrow> stats \<Rightarrow> bool" where
  "tally_ok c queued st \<longleftrightarrow>
     commands st = c \<and> applied_pending st + queued = incr_delayed st \<and>
     guard_conflicts st = guard_retries st \<and> guard_retries st \<le> applied_pending st"

definition sim_inv :: "nat \<Rightarrow> pending_incr list \<Rightarrow> sim \<Rightarrow> bool" where
  "sim_inv c ps s \<longleftrightarrow>
     2 \<le> unat (sim_next_ts s) \<and> unat (sim_next_ts s) + 2 * length ps \<le> 2 + 2 * c \<and>
     store_ok (unat (sim_next_ts s)) (sim_engine s) \<and>
     (\<forall>p\<in>set ps. pending_ok (unat (sim_next_ts s)) p) \<and>
     tally_ok c (length ps) (sim_stats s)"

lemma pending_ok_mono: "pending_ok N p \<Longrightarrow> N \<le> M \<Longrightarrow> pending_ok M p"
  by (auto simp: pending_ok_def)

text \<open>The number of commands is far from where the clock or a counter could overflow.\<close>

definition small :: "nat \<Rightarrow> bool" where
  "small c \<longleftrightarrow> c < 2 ^ 60"

lemma sim_inv_clock:
  assumes "sim_inv c ps s" and "small c" and "i \<le> 2"
  shows "unat (sim_next_ts s) < 2 ^ 63" and "unat (sim_next_ts s + of_nat i) = unat (sim_next_ts s) + i"
proof -
  show "unat (sim_next_ts s) < 2 ^ 63"
    using assms by (simp add: sim_inv_def small_def)
  then show "unat (sim_next_ts s + of_nat i) = unat (sim_next_ts s) + i"
    using assms(3) by (intro unat_plus_u128) simp
qed

section \<open>Queued increments\<close>

lemma retry_pending_safe:
  assumes "store_ok (unat (sim_next_ts s)) (sim_engine s)" and "0 < unat (sim_next_ts s)"
    and "unat (sim_next_ts s) < 2 ^ 63"
  shows "\<exists>e. store_ok (unat (sim_next_ts s) + 1) e \<and>
    retry_pending k s = Some (s\<lparr>sim_engine := e, sim_next_ts := sim_next_ts s + 1,
      sim_stats := (sim_stats s)\<lparr>guard_conflicts := guard_conflicts (sim_stats s) + 1,
                                 guard_retries := guard_retries (sim_stats s) + 1\<rparr>\<rparr>)"
proof -
  obtain x y e' where "read in_memory_ops (sim_engine s) k (Timestamp (sim_next_ts s - 1)) = Inr x"
    "next_counter x = Some y"
    "apply_guarded_batch in_memory_ops (sim_engine s) (Timestamp (sim_next_ts s))
       [ExpectedValue k (Timestamp (sim_next_ts s - 1)) x] [\<lparr>pw_key = k, pw_value = Some y\<rparr>] = (Ok (), e')"
    "store_ok (unat (sim_next_ts s) + 1) e'"
    using store_ok_incr [OF assms] by metis
  then show ?thesis
    by (intro exI [of _ e']) (simp add: retry_pending_def retry_incr_def Let_def)
qed

lemma apply_pending_safe:
  assumes inv: "sim_inv c (p # ps) s" and "small c"
    and retryable: "\<not> retryable (Ok ())" "\<And>r. guard_failed r \<Longrightarrow> retryable r"
  shows "safe (apply_pending retryable p s) (sim_inv c ps)"
proof -
  let ?n = "sim_next_ts s" and ?st = "sim_stats s"
  note clock = sim_inv_clock [OF inv \<open>small c\<close>]
  have store: "store_ok (unat ?n) (sim_engine s)" and p: "pending_ok (unat ?n) p"
    and ps: "\<forall>p\<in>set ps. pending_ok (unat ?n) p" and tally: "tally_ok c (Suc (length ps)) ?st"
    using inv by (auto simp: sim_inv_def)
  obtain r e' where call: "apply_guarded_incr (sim_engine s) (Timestamp ?n) p = (r, e')"
    by fastforce
  have "pi_read_ts p < Timestamp ?n"
    using p by (simp add: pending_ok_def less_timestamp_def word_less_nat_alt)
  note out = store_ok_guarded [OF store this _ call [unfolded apply_guarded_incr_def]]
  have e': "store_ok (unat ?n + 1) e'" and r: "r = Ok () \<or> guard_failed r"
    using out p by (simp_all add: pending_ok_def)
  let ?s' = "s\<lparr>sim_engine := e', sim_next_ts := ?n + 1,
      sim_stats := ?st\<lparr>applied_pending := applied_pending ?st + 1\<rparr>\<rparr>"
  have n1: "unat (?n + 1) = unat ?n + 1" and n2: "unat (?n + 1 + 1) = unat ?n + 2"
    using clock(2) [of 1] clock(2) [of 2] by (simp_all add: add.assoc)
  show ?thesis
  proof (cases "retryable r")
    case True
    have "2 \<le> unat ?n"
      using inv by (simp add: sim_inv_def)
    then obtain e2 where e2: "store_ok (unat ?n + 2) e2" and retry: "retry_pending (pi_key p) ?s' =
        Some (?s'\<lparr>sim_engine := e2, sim_next_ts := ?n + 1 + 1,
          sim_stats := (sim_stats ?s')\<lparr>guard_conflicts := guard_conflicts ?st + 1,
                                       guard_retries := guard_retries ?st + 1\<rparr>\<rparr>)"
      using retry_pending_safe [of ?s' "pi_key p"] e' clock(1) inv \<open>small c\<close> n1
      by (auto simp: sim_inv_def small_def)
    then show ?thesis
      using True inv ps tally n2
      by (auto simp: apply_pending_def call Let_def sim_inv_def tally_ok_def commands_def
          intro: pending_ok_mono)
  next
    case False
    then have "r = Ok ()"
      using r retryable by auto
    then show ?thesis
      using False inv ps tally n1 e'
      by (auto simp: apply_pending_def call Let_def sim_inv_def tally_ok_def commands_def
          intro: pending_ok_mono)
  qed
qed

lemma sim_inv_pending [simp]: "sim_inv c ps (s\<lparr>sim_pending := qs\<rparr>) = sim_inv c ps s"
  by (simp add: sim_inv_def)

lemma drain_due_safe:
  assumes "sim_inv c ps s" and "small c"
  shows "safe (drain_due op ps s) (\<lambda>s'. sim_inv c (sim_pending s') s')"
  using assms(1)
proof (induction ps arbitrary: s)
  case (Cons p ps)
  have "safe (apply_pending guard_failed p s) (sim_inv c ps)"
    using Cons.prems assms(2) by (rule apply_pending_safe) (simp_all add: guard_failed_def)
  then show ?case
    using Cons by (auto simp: safe_bind intro: safe_mono)
qed simp

lemma drain_all_safe:
  assumes "sim_inv c ps s" and "small c"
  shows "safe (drain_all ps s) (\<lambda>s'. sim_inv c [] s' \<and> sim_pending s' = [])"
  using assms(1)
proof (induction ps arbitrary: s)
  case (Cons p ps)
  have "safe (apply_pending isl p s) (sim_inv c ps)"
    using Cons.prems assms(2)
    by (rule apply_pending_safe) (auto simp: guard_failed_def isl_def split: sum.splits)
  then show ?case
    using Cons by (auto simp: safe_bind intro: safe_mono)
qed simp

section \<open>Commands\<close>

lemma lcg_range_Some: "upper \<noteq> 0 \<Longrightarrow> lcg_range rng upper = Some (lcg_next rng mod upper, lcg_next rng)"
  by (simp add: lcg_range_def)

lemma choose_key_Some: "\<exists>k rng'. choose_key rng hot = Some (k, rng')"
  by (simp add: choose_key_def lcg_range_Some HOT_KEYS_def KEYSPACE_def)

lemma sim_inv_rng [simp]: "sim_inv c ps (s\<lparr>sim_rng := rng\<rparr>) = sim_inv c ps s"
  by (simp add: sim_inv_def)

text \<open>A command that only counts itself.\<close>

lemma sim_inv_count:
  assumes "sim_inv c ps s" and "tally_ok (Suc c) (length ps) st"
  shows "sim_inv (Suc c) ps (s\<lparr>sim_stats := st\<rparr>)"
  using assms by (simp add: sim_inv_def)

lemma sim_inv_advance:
  assumes "sim_inv c ps s" and "small c" and "i \<le> 2" and "store_ok (unat (sim_next_ts s) + i) e"
    and "tally_ok (Suc c) (length ps) st"
  shows "sim_inv (Suc c) ps (s\<lparr>sim_engine := e, sim_next_ts := sim_next_ts s + of_nat i, sim_stats := st\<rparr>)"
  using assms(1,3-) sim_inv_clock(2) [OF assms(1-3)] by (auto simp: sim_inv_def intro: pending_ok_mono)

lemma sim_read_safe:
  assumes "sim_inv c (sim_pending s) s"
  shows "safe (sim_read mix s) (\<lambda>s'. sim_inv (Suc c) (sim_pending s') s')"
proof -
  have store: "store_ok (unat (sim_next_ts s)) (sim_engine s)" "0 < unat (sim_next_ts s)"
    and tally: "tally_ok c (length (sim_pending s)) (sim_stats s)"
    using assms by (simp_all add: sim_inv_def)
  obtain k rng' where k: "choose_key (sim_rng s) (hot_key_percent mix) = Some (k, rng')"
    using choose_key_Some by blast
  obtain x where "read in_memory_ops (sim_engine s) k (Timestamp (sim_next_ts s - 1)) = Inr x"
    using store_ok_read [OF store] by metis
  then show ?thesis
    using assms tally k by (auto simp: sim_read_def Let_def sim_inv_def tally_ok_def commands_def)
qed

lemma sim_write_safe:
  assumes "sim_inv c (sim_pending s) s" and "small c" and "tally_ok (Suc c) (length (sim_pending s)) st"
    and "ws \<noteq> []" and "distinct (map pw_key ws)" and "\<And>w. w \<in> set ws \<Longrightarrow> parse_counter (pw_value w) = 0"
  shows "safe (sim_write ws (s\<lparr>sim_rng := rng, sim_stats := st\<rparr>)) (\<lambda>s'. sim_inv (Suc c) (sim_pending s') s')"
proof -
  have "store_ok (unat (sim_next_ts s)) (sim_engine s)"
    using assms(1) by (simp add: sim_inv_def)
  then obtain e' where "apply_direct_batch in_memory_ops (sim_engine s) (Timestamp (sim_next_ts s)) ws = (Ok (), e')"
    and "store_ok (unat (sim_next_ts s) + 1) e'"
    using store_ok_direct [of "sim_next_ts s" "sim_engine s" ws] assms(4-6)
    by (metis le0 unat_0)
  then show ?thesis
    using assms(1-3) sim_inv_advance [of c "sim_pending s" s 1 e' st]
    by (simp add: sim_write_def sim_inv_def)
qed

lemma sim_set_safe:
  assumes "sim_inv c (sim_pending s) s" and "small c"
  shows "safe (sim_set mix op s) (\<lambda>s'. sim_inv (Suc c) (sim_pending s') s')"
proof -
  obtain k rng' where k: "choose_key (sim_rng s) (hot_key_percent mix) = Some (k, rng')"
    using choose_key_Some by blast
  have "tally_ok c (length (sim_pending s)) (sim_stats s)"
    using assms(1) by (simp add: sim_inv_def)
  then show ?thesis
    unfolding sim_set_def Let_def k
    by (simp del: ascii_simps ascii_append append.simps)
      (intro sim_write_safe assms; simp add: tally_ok_def commands_def parse_counter_text
        del: ascii_simps ascii_append append.simps)
qed

lemma sim_del_safe:
  assumes "sim_inv c (sim_pending s) s" and "small c"
  shows "safe (sim_del mix s) (\<lambda>s'. sim_inv (Suc c) (sim_pending s') s')"
proof -
  obtain k rng' where k: "choose_key (sim_rng s) (hot_key_percent mix) = Some (k, rng')"
    using choose_key_Some by blast
  have "tally_ok c (length (sim_pending s)) (sim_stats s)"
    using assms(1) by (simp add: sim_inv_def)
  then show ?thesis
    unfolding sim_del_def Let_def k
    by simp (intro sim_write_safe assms; simp add: tally_ok_def commands_def)
qed

lemma sim_mset_safe:
  assumes "sim_inv c (sim_pending s) s" and "small c"
  shows "safe (sim_mset op s) (\<lambda>s'. sim_inv (Suc c) (sim_pending s') s')"
proof -
  have "tally_ok c (length (sim_pending s)) (sim_stats s)"
    using assms(1) by (simp add: sim_inv_def)
  moreover have "distinct (map pw_key (map (mset_write op base) [0, 1, 2, 3]))" for base
    by (simp add: mset_write_def)
  moreover have "parse_counter (pw_value (mset_write op base i)) = 0" for base i
    unfolding mset_write_def by (simp only: physical_write.simps parse_counter_text)
  ultimately show ?thesis
    unfolding sim_mset_def Let_def
    by (simp add: lcg_range_Some KEYSPACE_def del: list.map)
      (intro sim_write_safe assms; auto simp add: tally_ok_def commands_def)
qed

lemma sim_incr_safe:
  assumes "sim_inv c (sim_pending s) s" and "small c"
  shows "safe (sim_incr mix op s) (\<lambda>s'. sim_inv (Suc c) (sim_pending s') s')"
proof -
  let ?n = "sim_next_ts s"
  have store: "store_ok (unat ?n) (sim_engine s)" and two: "2 \<le> unat ?n"
    and tally: "tally_ok c (length (sim_pending s)) (sim_stats s)"
    using assms(1) by (simp_all add: sim_inv_def)
  obtain k rng' where k: "choose_key (sim_rng s) (hot_key_percent mix) = Some (k, rng')"
    using choose_key_Some by blast
  obtain x y e' where xy: "read in_memory_ops (sim_engine s) k (Timestamp (?n - 1)) = Inr x"
      "next_counter x = Some y" "unat (parse_counter (Some y)) \<le> unat ?n"
    and call: "apply_guarded_batch in_memory_ops (sim_engine s) (Timestamp ?n)
       [ExpectedValue k (Timestamp (?n - 1)) x] [\<lparr>pw_key = k, pw_value = Some y\<rparr>] = (Ok (), e')"
    and e': "store_ok (unat ?n + 1) e'"
    using store_ok_incr [OF store _ sim_inv_clock(1) [OF assms, of 0]] two by (metis gr0I le0 not_numeral_le_zero)
  have "unat (?n - 1) < unat ?n"
    using two unat_pred_u128 [of ?n] by simp
  then have "sim_inv (Suc c) (sim_pending s @ [\<lparr>due_op = d, pi_key = k, pi_read_ts = Timestamp (?n - 1),
      pi_expected_value = x, pi_new_value = y\<rparr>])
      (s\<lparr>sim_stats := (sim_stats s)\<lparr>incr_delayed := Suc (incr_delayed (sim_stats s))\<rparr>\<rparr>)" for d
    using assms(1) xy(3) by (simp add: sim_inv_def tally_ok_def commands_def pending_ok_def)
  moreover have "sim_inv (Suc c) (sim_pending s) (s\<lparr>sim_engine := e', sim_next_ts := ?n + of_nat 1,
      sim_stats := (sim_stats s)\<lparr>incr_immediate := Suc (incr_immediate (sim_stats s))\<rparr>\<rparr>)"
    using assms e' tally by (intro sim_inv_advance) (simp_all add: tally_ok_def commands_def)
  ultimately show ?thesis
    by (simp add: sim_incr_def Let_def k xy(1,2) lcg_range_Some call) (simp add: sim_inv_def)
qed

lemma sim_txn_safe:
  assumes "sim_inv c (sim_pending s) s" and "small c"
  shows "safe (sim_txn mix op s) (\<lambda>s'. sim_inv (Suc c) (sim_pending s') s')"
proof -
  let ?n = "sim_next_ts s"
  have store: "store_ok (unat ?n) (sim_engine s)"
    and tally: "tally_ok c (length (sim_pending s)) (sim_stats s)"
    using assms(1) by (simp_all add: sim_inv_def)
  obtain a r1 where a: "choose_key (sim_rng s) (hot_key_percent mix) = Some (a, r1)"
    using choose_key_Some by blast
  obtain b r2 where b: "choose_key r1 (hot_key_percent mix) = Some (b, r2)"
    using choose_key_Some by blast
  obtain b' r3 where b': "other_key a b r2 = Some (b', r3)" "a \<noteq> b'"
    using other_key_total by metis
  have bound: "unat ?n + 2 < 2 ^ 128"
    using sim_inv_clock(1) [OF assms, of 0] by simp
  obtain e1 e2 where
    calls: "prewrite_batch in_memory_ops (sim_engine s) (TxnId (op + 1)) (Timestamp ?n)
        [txn_write op a ''a'', txn_write op b' ''b''] = (Ok (), e1)"
      "commit_batch in_memory_ops e1 (TxnId (op + 1)) (Timestamp ?n) (Timestamp (?n + 1)) [a, b'] = (Ok (), e2)"
    and e2: "store_ok (unat ?n + 2) e2"
    using store_ok_txn [OF store bound b'(2) parse_counter_text(3) parse_counter_text(3)]
    unfolding txn_write_def by blast
  have "sim_inv (Suc c) (sim_pending s) (s\<lparr>sim_engine := e2, sim_next_ts := ?n + of_nat 2,
      sim_stats := (sim_stats s)\<lparr>txns := Suc (txns (sim_stats s))\<rparr>\<rparr>)"
    using assms e2 tally by (intro sim_inv_advance) (simp_all add: tally_ok_def commands_def)
  then show ?thesis
    by (simp add: sim_txn_def Let_def a b b'(1) calls) (simp add: sim_inv_def)
qed

lemma sim_command_safe:
  assumes "sim_inv c (sim_pending s) s" and "small c"
  shows "safe (sim_command mix op roll s) (\<lambda>s'. sim_inv (Suc c) (sim_pending s') s')"
  using sim_read_safe [OF assms(1)] sim_set_safe [OF assms] sim_del_safe [OF assms]
    sim_mset_safe [OF assms] sim_incr_safe [OF assms] sim_txn_safe [OF assms]
  by (simp add: sim_command_def Let_def)

lemma sim_gc_safe:
  assumes "sim_inv c (sim_pending s) s"
  shows "safe (sim_gc s) (\<lambda>s'. sim_inv c (sim_pending s') s')"
proof -
  have "store_ok (unat (sim_next_ts s)) (sim_engine s)"
    using assms by (simp add: sim_inv_def)
  then obtain res e' where "gc_incremental in_memory_ops (sim_engine s)
      (Timestamp (saturating_sub (sim_next_ts s) (ucast GC_RETENTION))) (sim_cursor s) sim_gc_options = (Ok res, e')"
    and "store_ok (unat (sim_next_ts s)) e'"
    by (rule store_ok_gc)
  then show ?thesis
    using assms by (simp add: sim_gc_def Let_def sim_inv_def tally_ok_def commands_def)
qed

section \<open>The run\<close>

lemma sim_op_safe:
  assumes "sim_inv c (sim_pending s) s" and "small c" and "total_weight mix \<noteq> 0"
  shows "safe (sim_op mix op s) (\<lambda>s'. sim_inv (Suc c) (sim_pending s') s')"
proof -
  have rest: "safe (sim_command mix op roll (s1\<lparr>sim_rng := rng\<rparr>))
      (\<lambda>s2. safe (if enable_gc mix \<and> op > 0 \<and> op mod 10 = 0 then sim_gc s2 else Some s2)
        (\<lambda>s'. sim_inv (Suc c) (sim_pending s') s'))"
    if "sim_inv c (sim_pending s1) s1" for s1 rng roll
    by (rule safe_mono [OF sim_command_safe]) (use that assms(2) sim_gc_safe in auto)
  show ?thesis
    unfolding sim_op_def safe_bind
    by (rule safe_mono [OF drain_due_safe [OF assms(1,2)]])
      (use assms(3) rest in \<open>simp add: lcg_range_Some safe_bind\<close>)
qed

lemma safe_for_each_count:
  assumes "\<And>x c s. c < N \<Longrightarrow> I c s \<Longrightarrow> safe (f x s) (I (Suc c))" and "I c s" and "c + length xs \<le> N"
  shows "safe (for_each f xs s) (I (c + length xs))"
  using assms(2,3)
proof (induction xs arbitrary: c s)
  case (Cons x xs)
  have "safe (f x s) (I (Suc c))"
    using Cons.prems assms(1) by simp
  then show ?case
    using Cons.IH [of "Suc c"] Cons.prems by (auto simp: safe_bind elim!: safe_mono)
qed simp

lemma length_up_to [simp]: "length (up_to n) = unat n"
  by (simp add: up_to_def)

lemma distinct_up_to: "distinct (up_to n)"
proof -
  have "inj_on (of_nat :: nat \<Rightarrow> u64) {0..<unat n}"
  proof (rule inj_onI)
    fix i j assume ij: "i \<in> {0..<unat n}" "j \<in> {0..<unat n}" "(of_nat i :: u64) = of_nat j"
    have "unat (of_nat i :: u64) = i" if "i < unat n" for i
      using that unsigned_less [of n, where ?'a = nat] by (simp add: unat_of_nat)
    with ij show "i = j"
      by (metis atLeastLessThan_iff)
  qed
  then show ?thesis
    by (simp add: up_to_def distinct_map)
qed

lemma sim_setup_safe: "safe sim_setup (\<lambda>s. sim_inv 0 (sim_pending s) s)"
proof -
  let ?ws = "map (\<lambda>i. \<lparr>pw_key = sim_key i, pw_value = Some (ascii ''0'')\<rparr>) (up_to INITIAL_KEYS) :: physical_write list"
  have "store_ok (unat (1 :: u128)) in_memory_new"
    by (simp add: store_ok_def)
  moreover have "?ws \<noteq> []"
    using length_up_to [of INITIAL_KEYS] by (auto simp: INITIAL_KEYS_def simp del: length_up_to)
  moreover have "distinct (map pw_key ?ws)"
    using distinct_up_to by (simp add: distinct_map comp_def inj_on_def)
  moreover have "unat (parse_counter (pw_value w)) \<le> unat (1 :: u128)" if "w \<in> set ?ws" for w
    using that by (auto simp: parse_counter_text(4) simp del: ascii_simps)
  ultimately obtain e' where "apply_direct_batch in_memory_ops in_memory_new (Timestamp 1) ?ws = (Ok (), e')"
    and "store_ok (unat (1 :: u128) + 1) e'"
    by (rule store_ok_direct)
  moreover from this have "store_ok 2 e'"
    by (simp add: numeral_2_eq_2)
  ultimately show ?thesis
    by (simp add: sim_setup_def sim_inv_def tally_ok_def commands_def stats_default_def del: ascii_simps)
qed

lemma run_simulation_safe:
  assumes "total_weight mix \<noteq> 0"
  shows "safe (run_simulation mix) (\<lambda>s. sim_inv (unat OPS) [] s \<and> sim_pending s = [])"
proof -
  have small: "small c" if "c \<le> unat OPS" for c
    using that by (simp add: small_def OPS_def)
  have run: "safe (for_each (sim_op mix) (up_to OPS) s) (\<lambda>s'. sim_inv (unat OPS) (sim_pending s') s')"
    if "sim_inv 0 (sim_pending s) s" for s
    using safe_for_each_count [of "unat OPS" "\<lambda>c s. sim_inv c (sim_pending s) s" "sim_op mix" 0 s "up_to OPS"]
      sim_op_safe [OF _ small assms] that by simp
  show ?thesis
    unfolding run_simulation_def safe_bind
    by (rule safe_mono [OF sim_setup_safe], rule safe_mono [OF run], assumption,
        rule drain_all_safe [OF _ small], assumption, simp)
qed

end
