(* ===== verification/Mvcc_Display.thy ===== *)
theory Mvcc_Display
  imports Mvcc_Errors Rust_Runtime
begin

text \<open>
  The texts of the library: \<open>Display\<close> of timestamps and transaction ids (\<open>types.rs\<close>) and of the error
  enums, whose messages are the \<open>#[error(...)]\<close> attributes of \<open>error.rs\<close>. \<open>{x}\<close> in a message is the
  \<open>Display\<close> of a field, \<open>{x:?}\<close> its \<open>Debug\<close>: a byte vector prints as a list of numbers.
\<close>

section \<open>Fields\<close>

definition display_timestamp :: "timestamp \<Rightarrow> string" where
  "display_timestamp t = show_nat (unat (ts_val t))"

definition display_txn_id :: "txn_id \<Rightarrow> string" where
  "display_txn_id t = show_nat (unat (txn_val t))"

fun join_comma :: "string list \<Rightarrow> string" where
  "join_comma [] = []"
| "join_comma [s] = s"
| "join_comma (s # t # ss) = s @ '', '' @ join_comma (t # ss)"

definition debug_bytes :: "u8 list \<Rightarrow> string" where
  "debug_bytes bs = ''['' @ join_comma (map show_u8 bs) @ '']''"

definition debug_timestamp_option :: "timestamp option \<Rightarrow> string" where
  "debug_timestamp_option t =
     (case t of None \<Rightarrow> ''None'' | Some t \<Rightarrow> ''Some(Timestamp('' @ display_timestamp t @ ''))'')"

section \<open>Errors\<close>

fun display_read_error :: "read_error \<Rightarrow> string" where
  "display_read_error (read_error.Backend msg) = ''backend error: '' @ msg"

fun display_prewrite_error :: "prewrite_error \<Rightarrow> string" where
  "display_prewrite_error (prewrite_error.KeyLocked txn_id) =
     ''key is locked by another transaction: txn_id='' @ display_txn_id txn_id"
| "display_prewrite_error prewrite_error.WriteConflict = ''write conflict: committed version after start_ts''"
| "display_prewrite_error (prewrite_error.Backend msg) = ''backend error: '' @ msg"
| "display_prewrite_error prewrite_error.IntentAlreadyExists =
     ''intent already exists with different parameters''"

fun display_commit_error :: "commit_error \<Rightarrow> string" where
  "display_commit_error commit_error.IntentNotFound = ''intent not found''"
| "display_commit_error commit_error.TxnIdMismatch = ''txn_id mismatch''"
| "display_commit_error commit_error.StartTsMismatch = ''start_ts mismatch''"
| "display_commit_error (commit_error.InvalidCommitTimestamp start_ts commit_ts) =
     ''invalid commit timestamp: commit_ts '' @ display_timestamp commit_ts @ '' <= start_ts '' @
     display_timestamp start_ts"
| "display_commit_error (commit_error.DuplicateCommitTimestamp commit_ts) =
     ''duplicate commit timestamp: '' @ display_timestamp commit_ts"
| "display_commit_error (commit_error.CommitTsTooOld commit_ts latest_commit_ts) =
     ''commit timestamp too old: commit_ts '' @ display_timestamp commit_ts @ '', latest is '' @
     display_timestamp latest_commit_ts"
| "display_commit_error (commit_error.CommitTsTooEarly commit_ts min_commit_ts) =
     ''commit_ts '' @ display_timestamp commit_ts @ '' is before required minimum '' @
     display_timestamp min_commit_ts"
| "display_commit_error (commit_error.Backend msg) = ''backend error: '' @ msg"

fun display_abort_error :: "abort_error \<Rightarrow> string" where
  "display_abort_error (abort_error.Backend msg) = ''backend error: '' @ msg"

fun display_gc_error :: "gc_error \<Rightarrow> string" where
  "display_gc_error (gc_error.Backend msg) = ''backend error: '' @ msg"
| "display_gc_error gc_error.InvalidGcBudget =
     ''invalid gc budget: max_keys and max_versions must be > 0''"
| "display_gc_error gc_error.InvalidKeyGcBudget =
     ''invalid per-key gc budget: max_versions_examined must be > 0''"

fun display_codec_error :: "codec_error \<Rightarrow> string" where
  "display_codec_error (codec_error.Encode msg) = ''encode error: '' @ msg"
| "display_codec_error (codec_error.Decode msg) = ''decode error: '' @ msg"

fun display_batch_error :: "batch_error \<Rightarrow> string" where
  "display_batch_error batch_error.EmptyBatch = ''batch is empty''"
| "display_batch_error (batch_error.InvalidCommitTimestamp read_ts commit_ts) =
     ''invalid commit timestamp: commit_ts '' @ display_timestamp commit_ts @ '' <= read_ts '' @
     display_timestamp read_ts"
| "display_batch_error (batch_error.CommitTsTooOld key commit_ts latest_commit_ts) =
     ''commit timestamp too old: key '' @ debug_bytes key @ '' at '' @ display_timestamp commit_ts @
     '', latest is '' @ display_timestamp latest_commit_ts"
| "display_batch_error batch_error.NoReadGuards = ''guarded batch requires at least one read guard''"
| "display_batch_error (batch_error.DuplicateKeyInBatch key) = ''duplicate key in batch: '' @ debug_bytes key"
| "display_batch_error (batch_error.KeyLocked key txn_id) =
     ''key is locked by an active intent: key '' @ debug_bytes key @ '', txn_id '' @ display_txn_id txn_id"
| "display_batch_error (batch_error.GuardFailedNewerVersion key read_ts actual_commit_ts) =
     ''read guard failed: newer version exists after read_ts '' @ display_timestamp read_ts @ '' for key '' @
     debug_bytes key @ '' (actual_commit_ts: '' @ display_timestamp actual_commit_ts @ '')''"
| "display_batch_error (batch_error.GuardFailedVersionMismatch key expected actual) =
     ''read guard failed: expected commit_ts '' @ debug_timestamp_option expected @ '' but found '' @
     debug_timestamp_option actual @ '' for key '' @ debug_bytes key"
| "display_batch_error (batch_error.GuardFailedValueMismatch key) =
     ''read guard failed: expected value mismatch for key '' @ debug_bytes key"
| "display_batch_error (batch_error.Backend msg) = ''backend error: '' @ msg"

fun display_batch_prewrite_error :: "batch_prewrite_error \<Rightarrow> string" where
  "display_batch_prewrite_error batch_prewrite_error.EmptyBatch = ''batch is empty''"
| "display_batch_prewrite_error (batch_prewrite_error.DuplicateKeyInBatch key) =
     ''duplicate key in batch: '' @ debug_bytes key"
| "display_batch_prewrite_error (batch_prewrite_error.KeyLocked key txn_id) =
     ''key is locked by another transaction: key '' @ debug_bytes key @ '', txn_id '' @ display_txn_id txn_id"
| "display_batch_prewrite_error (batch_prewrite_error.WriteConflict key) =
     ''write conflict: committed version after start_ts for key '' @ debug_bytes key"
| "display_batch_prewrite_error (batch_prewrite_error.IntentAlreadyExists key) =
     ''intent already exists with different parameters for key '' @ debug_bytes key"
| "display_batch_prewrite_error batch_prewrite_error.PartialBatchReplay =
     ''partial batch replay detected: some keys have intents, others are missing''"
| "display_batch_prewrite_error (batch_prewrite_error.Backend msg) = ''backend error: '' @ msg"

fun display_batch_commit_error :: "batch_commit_error \<Rightarrow> string" where
  "display_batch_commit_error batch_commit_error.EmptyBatch = ''batch is empty''"
| "display_batch_commit_error (batch_commit_error.DuplicateKeyInBatch key) =
     ''duplicate key in batch: '' @ debug_bytes key"
| "display_batch_commit_error (batch_commit_error.IntentNotFound key) =
     ''intent not found for key '' @ debug_bytes key"
| "display_batch_commit_error (batch_commit_error.TxnIdMismatch key) =
     ''txn_id mismatch for key '' @ debug_bytes key"
| "display_batch_commit_error (batch_commit_error.StartTsMismatch key) =
     ''start_ts mismatch for key '' @ debug_bytes key"
| "display_batch_commit_error (batch_commit_error.InvalidCommitTimestamp start_ts commit_ts) =
     ''invalid commit timestamp: commit_ts '' @ display_timestamp commit_ts @ '' <= start_ts '' @
     display_timestamp start_ts"
| "display_batch_commit_error (batch_commit_error.CommitTsTooEarly key commit_ts min_commit_ts) =
     ''commit_ts '' @ display_timestamp commit_ts @ '' is before required minimum '' @
     display_timestamp min_commit_ts @ '' for key '' @ debug_bytes key"
| "display_batch_commit_error (batch_commit_error.CommitTsTooOld key commit_ts latest_commit_ts) =
     ''commit timestamp too old: key '' @ debug_bytes key @ '' at '' @ display_timestamp commit_ts @
     '', latest is '' @ display_timestamp latest_commit_ts"
| "display_batch_commit_error (batch_commit_error.Backend msg) = ''backend error: '' @ msg"

fun display_batch_abort_error :: "batch_abort_error \<Rightarrow> string" where
  "display_batch_abort_error (batch_abort_error.DuplicateKeyInBatch key) =
     ''duplicate key in batch: '' @ debug_bytes key"
| "display_batch_abort_error (batch_abort_error.Backend msg) = ''backend error: '' @ msg"

section \<open>Facts\<close>

lemma display_txn_id_parses: "parse_u64 (ascii (display_txn_id t)) = Some (txn_val t)"
  by (simp add: display_txn_id_def parse_u64_to_string)

end
