(* ===== verification/Debug_Text.thy ===== *)
theory Debug_Text
  imports Mvcc_Display
begin

text \<open>
  \<open>Debug\<close> texts, \<open>{:?}\<close>: of strings, options and vectors, and the derived ones of the error enums
  that the example programs print. A string is a byte sequence that \<open>from_utf8\<close> accepted; its characters
  beyond ASCII are taken to be printable, so that their bytes are printed unchanged.
\<close>

section \<open>Strings and containers\<close>

definition quote :: string where
  "quote = [CHR 0x22]"

definition backslash :: string where
  "backslash = [CHR 0x5C]"

fun show_hex :: "nat \<Rightarrow> string" where
  "show_hex n =
     (if n < 16 then [''0123456789abcdef'' ! n] else show_hex (n div 16) @ [''0123456789abcdef'' ! (n mod 16)])"

declare show_hex.simps [simp del]

definition debug_char :: "u8 \<Rightarrow> string" where
  "debug_char b =
     (if b = 0x22 then backslash @ quote
      else if b = 0x5C then backslash @ backslash
      else if b = 0x00 then backslash @ ''0''
      else if b = 0x09 then backslash @ ''t''
      else if b = 0x0A then backslash @ ''n''
      else if b = 0x0D then backslash @ ''r''
      else if b < 0x20 \<or> b = 0x7F then backslash @ ''u{'' @ show_hex (unat b) @ ''}''
      else [char_of (unat b)])"

definition debug_str :: "u8 list \<Rightarrow> string" where
  "debug_str bs = quote @ concat (map debug_char bs) @ quote"

definition debug_option :: "('a \<Rightarrow> string) \<Rightarrow> 'a option \<Rightarrow> string" where
  "debug_option debug x = (case x of None \<Rightarrow> ''None'' | Some y \<Rightarrow> ''Some('' @ debug y @ '')'')"

definition debug_vec :: "('a \<Rightarrow> string) \<Rightarrow> 'a list \<Rightarrow> string" where
  "debug_vec debug xs = ''['' @ join_comma (map debug xs) @ '']''"

section \<open>Derived\<close>

definition debug_timestamp :: "timestamp \<Rightarrow> string" where
  "debug_timestamp t = ''Timestamp('' @ show_nat (unat (ts_val t)) @ '')''"

definition debug_txn_id :: "txn_id \<Rightarrow> string" where
  "debug_txn_id t = ''TxnId('' @ show_nat (unat (txn_val t)) @ '')''"

text \<open>A variant with named fields, and one with a message. A message is a string, printed with quotes.\<close>

definition debug_fields :: "string \<Rightarrow> (string \<times> string) list \<Rightarrow> string" where
  "debug_fields variant fs =
     variant @ '' { '' @ join_comma (map (\<lambda>(field, text). field @ '': '' @ text) fs) @ '' }''"

definition debug_backend :: "string \<Rightarrow> string" where
  "debug_backend msg = ''Backend('' @ debug_str (ascii msg) @ '')''"

fun debug_batch_error :: "batch_error \<Rightarrow> string" where
  "debug_batch_error batch_error.EmptyBatch = ''EmptyBatch''"
| "debug_batch_error (batch_error.InvalidCommitTimestamp read_ts commit_ts) =
     debug_fields ''InvalidCommitTimestamp''
       [(''read_ts'', debug_timestamp read_ts), (''commit_ts'', debug_timestamp commit_ts)]"
| "debug_batch_error (batch_error.CommitTsTooOld key commit_ts latest_commit_ts) =
     debug_fields ''CommitTsTooOld''
       [(''key'', debug_bytes key), (''commit_ts'', debug_timestamp commit_ts),
        (''latest_commit_ts'', debug_timestamp latest_commit_ts)]"
| "debug_batch_error batch_error.NoReadGuards = ''NoReadGuards''"
| "debug_batch_error (batch_error.DuplicateKeyInBatch key) =
     debug_fields ''DuplicateKeyInBatch'' [(''key'', debug_bytes key)]"
| "debug_batch_error (batch_error.KeyLocked key txn_id) =
     debug_fields ''KeyLocked'' [(''key'', debug_bytes key), (''txn_id'', debug_txn_id txn_id)]"
| "debug_batch_error (batch_error.GuardFailedNewerVersion key read_ts actual_commit_ts) =
     debug_fields ''GuardFailedNewerVersion''
       [(''key'', debug_bytes key), (''read_ts'', debug_timestamp read_ts),
        (''actual_commit_ts'', debug_timestamp actual_commit_ts)]"
| "debug_batch_error (batch_error.GuardFailedVersionMismatch key expected actual) =
     debug_fields ''GuardFailedVersionMismatch''
       [(''key'', debug_bytes key), (''expected'', debug_option debug_timestamp expected),
        (''actual'', debug_option debug_timestamp actual)]"
| "debug_batch_error (batch_error.GuardFailedValueMismatch key) =
     debug_fields ''GuardFailedValueMismatch'' [(''key'', debug_bytes key)]"
| "debug_batch_error (batch_error.Backend msg) = debug_backend msg"

fun debug_batch_prewrite_error :: "batch_prewrite_error \<Rightarrow> string" where
  "debug_batch_prewrite_error batch_prewrite_error.EmptyBatch = ''EmptyBatch''"
| "debug_batch_prewrite_error (batch_prewrite_error.DuplicateKeyInBatch key) =
     debug_fields ''DuplicateKeyInBatch'' [(''key'', debug_bytes key)]"
| "debug_batch_prewrite_error (batch_prewrite_error.KeyLocked key txn_id) =
     debug_fields ''KeyLocked'' [(''key'', debug_bytes key), (''txn_id'', debug_txn_id txn_id)]"
| "debug_batch_prewrite_error (batch_prewrite_error.WriteConflict key) =
     debug_fields ''WriteConflict'' [(''key'', debug_bytes key)]"
| "debug_batch_prewrite_error (batch_prewrite_error.IntentAlreadyExists key) =
     debug_fields ''IntentAlreadyExists'' [(''key'', debug_bytes key)]"
| "debug_batch_prewrite_error batch_prewrite_error.PartialBatchReplay = ''PartialBatchReplay''"
| "debug_batch_prewrite_error (batch_prewrite_error.Backend msg) = debug_backend msg"

fun debug_batch_commit_error :: "batch_commit_error \<Rightarrow> string" where
  "debug_batch_commit_error batch_commit_error.EmptyBatch = ''EmptyBatch''"
| "debug_batch_commit_error (batch_commit_error.DuplicateKeyInBatch key) =
     debug_fields ''DuplicateKeyInBatch'' [(''key'', debug_bytes key)]"
| "debug_batch_commit_error (batch_commit_error.IntentNotFound key) =
     debug_fields ''IntentNotFound'' [(''key'', debug_bytes key)]"
| "debug_batch_commit_error (batch_commit_error.TxnIdMismatch key) =
     debug_fields ''TxnIdMismatch'' [(''key'', debug_bytes key)]"
| "debug_batch_commit_error (batch_commit_error.StartTsMismatch key) =
     debug_fields ''StartTsMismatch'' [(''key'', debug_bytes key)]"
| "debug_batch_commit_error (batch_commit_error.InvalidCommitTimestamp start_ts commit_ts) =
     debug_fields ''InvalidCommitTimestamp''
       [(''start_ts'', debug_timestamp start_ts), (''commit_ts'', debug_timestamp commit_ts)]"
| "debug_batch_commit_error (batch_commit_error.CommitTsTooEarly key commit_ts min_commit_ts) =
     debug_fields ''CommitTsTooEarly''
       [(''key'', debug_bytes key), (''commit_ts'', debug_timestamp commit_ts),
        (''min_commit_ts'', debug_timestamp min_commit_ts)]"
| "debug_batch_commit_error (batch_commit_error.CommitTsTooOld key commit_ts latest_commit_ts) =
     debug_fields ''CommitTsTooOld''
       [(''key'', debug_bytes key), (''commit_ts'', debug_timestamp commit_ts),
        (''latest_commit_ts'', debug_timestamp latest_commit_ts)]"
| "debug_batch_commit_error (batch_commit_error.Backend msg) = debug_backend msg"

end
