(* ===== verification/Example_Programs.thy ===== *)
theory Example_Programs
  imports Load_Sim_Laws Debug_Text
begin

text \<open>
  The small programs under \<open>examples/\<close>: each \<open>main\<close> returns the lines it prints, \<open>None\<close> if an
  \<open>unwrap\<close> in it panics.
\<close>

text \<open>\<open>value.map(|v| String::from_utf8(v).unwrap())\<close>\<close>

definition utf8_option :: "val option \<Rightarrow> val option option" where
  "utf8_option v = (case v of None \<Rightarrow> Some None | Some bytes \<Rightarrow> map_option Some (from_utf8 bytes))"

definition direct_set_main :: "string list option" where
  "direct_set_main =
     do {
       e \<leftarrow> exec (apply_direct_batch in_memory_ops in_memory_new (Timestamp 10)
              [\<lparr>pw_key = ascii ''config_version'', pw_value = Some (ascii ''1.0'')\<rparr>]);
       v \<leftarrow> unwrap (read in_memory_ops e (ascii ''config_version'') (Timestamp 15));
       text \<leftarrow> utf8_option v;
       Some [''Executing SET config_version = '1.0' at TS 10'',
             ''Read at TS 15: '' @ debug_option debug_str text]
     }"

definition guarded_incr_main :: "string list option" where
  "guarded_incr_main =
     (let counter = ascii ''counter''; read_ts = Timestamp 8 in
      do {
        e \<leftarrow> exec (apply_direct_batch in_memory_ops in_memory_new (Timestamp 5)
               [\<lparr>pw_key = counter, pw_value = Some (ascii ''10'')\<rparr>]);
        found \<leftarrow> unwrap (read in_memory_ops e counter read_ts);
        current_val \<leftarrow> found;
        text \<leftarrow> from_utf8 current_val;
        current_num \<leftarrow> parse_u64 text;
        new_num \<leftarrow> checked_inc current_num;
        let (result, e) = apply_guarded_batch in_memory_ops e (Timestamp 10)
              [ExpectedValue counter read_ts (Some current_val)]
              [\<lparr>pw_key = counter, pw_value = Some (ascii (show_nat (unat new_num)))\<rparr>] in
        do {
          final_val \<leftarrow> unwrap (read in_memory_ops e counter (Timestamp 15));
          final_text \<leftarrow> utf8_option final_val;
          Some [''Attempting to increment counter from '' @ show_nat (unat current_num) @ '' to '' @
                  show_nat (unat new_num) @ '' at TS 10'',
                (case result of Inr _ \<Rightarrow> ''Increment successful!''
                 | Inl err \<Rightarrow> ''Increment failed: '' @ debug_batch_error err),
                ''Final value: '' @ debug_option debug_str final_text]
        }
      })"

definition multi_key_intent_txn_main :: "string list option" where
  "multi_key_intent_txn_main =
     (let a = ascii ''account_a''; b = ascii ''account_b''; txn = TxnId 100; start_ts = Timestamp 10;
          step1 = ''Step 1: prewriting intents for account_a and account_b at TS 10'' in
      case prewrite_batch in_memory_ops in_memory_new txn start_ts
             [\<lparr>pw_key = a, pw_value = Some (ascii ''900'')\<rparr>, \<lparr>pw_key = b, pw_value = Some (ascii ''1100'')\<rparr>] of
        (Inl err, e) \<Rightarrow> Some [step1, ''Prewrite failed: '' @ debug_batch_prewrite_error err]
      | (Inr _, e) \<Rightarrow>
          do {
            read_a \<leftarrow> unwrap (read in_memory_ops e a (Timestamp 15));
            let (result, e) = commit_batch in_memory_ops e txn start_ts (Timestamp 20) [a, b] in
            do {
              found \<leftarrow> unwrap (read in_memory_ops e a (Timestamp 25));
              final_a \<leftarrow> found;
              found \<leftarrow> unwrap (read in_memory_ops e b (Timestamp 25));
              final_b \<leftarrow> found;
              text_a \<leftarrow> from_utf8 final_a;
              text_b \<leftarrow> from_utf8 final_b;
              Some [step1, ''Prewrite successful! Locks acquired.'',
                    ''Reader at TS 15 sees account_a: '' @ debug_option debug_bytes read_a,
                    ''Step 2: committing transaction at TS 20'',
                    (case result of Inr _ \<Rightarrow> ''Commit successful!''
                     | Inl err \<Rightarrow> ''Commit failed: '' @ debug_batch_commit_error err),
                    ''Reader at TS 25 sees account_a: '' @ debug_str text_a,
                    ''Reader at TS 25 sees account_b: '' @ debug_str text_b]
            }
          })"

text \<open>What the program prints, with the engine it ends with.\<close>

definition abort_replay_main :: "(string list \<times> in_memory) option" where
  "abort_replay_main =
     (let txn = TxnId 42; start_ts = Timestamp 10; keys = [ascii ''key1'', ascii ''key2''] in
      do {
        k0 \<leftarrow> vec_index keys 0;
        k1 \<leftarrow> vec_index keys 1;
        e \<leftarrow> exec (prewrite_batch in_memory_ops in_memory_new txn start_ts
               [\<lparr>pw_key = k0, pw_value = Some (ascii ''v1'')\<rparr>, \<lparr>pw_key = k1, pw_value = Some (ascii ''v2'')\<rparr>]);
        texts \<leftarrow> those (map from_utf8 keys);
        e \<leftarrow> exec (abort_batch in_memory_ops e txn start_ts keys);
        e \<leftarrow> exec (abort_batch in_memory_ops e txn start_ts keys);
        Some ([''Intents written for '' @ debug_vec debug_str texts,
               ''Executing first abort request...'', ''First abort successful.'',
               ''Executing second abort request (retry)...'',
               ''Second abort successful. Idempotency maintained.''], e)
      })"

lemma direct_set_run:
  "direct_set_main =
     Some [''Executing SET config_version = '1.0' at TS 10'',
           ''Read at TS 15: Some('' @ quote @ ''1.0'' @ quote @ '')'']"
  by code_simp

text \<open>The engine before the increment.\<close>

definition counter_engine :: in_memory where
  "counter_engine = snd (apply_direct_batch in_memory_ops in_memory_new (Timestamp 5)
     [\<lparr>pw_key = ascii ''counter'', pw_value = Some (ascii ''10'')\<rparr>])"

lemma counter_engine_run:
  "exec (apply_direct_batch in_memory_ops in_memory_new (Timestamp 5)
     [\<lparr>pw_key = ascii ''counter'', pw_value = Some (ascii ''10'')\<rparr>]) = Some counter_engine"
proof -
  have "fst (apply_direct_batch in_memory_ops in_memory_new (Timestamp 5)
     [\<lparr>pw_key = ascii ''counter'', pw_value = Some (ascii ''10'')\<rparr>]) = Ok ()"
    by code_simp
  then show ?thesis
    by (metis counter_engine_def exec_Ok prod.collapse)
qed

lemma counter_engine_read:
  "read in_memory_ops counter_engine (ascii ''counter'') (Timestamp 8) = Ok (Some (ascii ''10''))"
  by code_simp

lemma counter_engine_incr:
  "(let (result, e) = apply_guarded_batch in_memory_ops counter_engine (Timestamp 10)
          [ExpectedValue (ascii ''counter'') (Timestamp 8) (Some (ascii ''10''))]
          [\<lparr>pw_key = ascii ''counter'', pw_value = Some (ascii (show_nat (unat (11 :: u64))))\<rparr>] in
    do {
      final_val \<leftarrow> unwrap (read in_memory_ops e (ascii ''counter'') (Timestamp 15));
      final_text \<leftarrow> utf8_option final_val;
      Some [''Attempting to increment counter from '' @ show_nat (unat (10 :: u64)) @ '' to '' @
              show_nat (unat (11 :: u64)) @ '' at TS 10'',
            (case result of Inr _ \<Rightarrow> ''Increment successful!''
             | Inl err \<Rightarrow> ''Increment failed: '' @ debug_batch_error err),
            ''Final value: '' @ debug_option debug_str final_text]
    }) =
    Some [''Attempting to increment counter from 10 to 11 at TS 10'', ''Increment successful!'',
          ''Final value: Some('' @ quote @ ''11'' @ quote @ '')'']"
  by code_simp

lemma parse_ten: "from_utf8 (ascii ''10'') = Some (ascii ''10'')" "parse_u64 (ascii ''10'') = Some 10"
  by (simp_all add: from_utf8_def parse_u64_def is_digit_def)

lemma guarded_incr_run:
  "guarded_incr_main =
     Some [''Attempting to increment counter from 10 to 11 at TS 10'', ''Increment successful!'',
           ''Final value: Some('' @ quote @ ''11'' @ quote @ '')'']"
proof -
  have inc: "checked_inc (10 :: u64) = Some 11"
    by (simp add: checked_inc_def)
  show ?thesis
    unfolding guarded_incr_main_def Let_def counter_engine_run bind.simps counter_engine_read
      unwrap.simps parse_ten inc
    using counter_engine_incr unfolding Let_def .
qed

lemma multi_key_intent_txn_run:
  "multi_key_intent_txn_main =
     Some [''Step 1: prewriting intents for account_a and account_b at TS 10'',
           ''Prewrite successful! Locks acquired.'', ''Reader at TS 15 sees account_a: None'',
           ''Step 2: committing transaction at TS 20'', ''Commit successful!'',
           ''Reader at TS 25 sees account_a: '' @ quote @ ''900'' @ quote,
           ''Reader at TS 25 sees account_b: '' @ quote @ ''1100'' @ quote]"
  by code_simp

lemma abort_replay_run:
  "map_option (\<lambda>(lines, e). (lines, imb_all_keys e)) abort_replay_main =
     Some ([''Intents written for ['' @ quote @ ''key1'' @ quote @ '', '' @ quote @ ''key2'' @ quote @ '']'',
            ''Executing first abort request...'', ''First abort successful.'',
            ''Executing second abort request (retry)...'',
            ''Second abort successful. Idempotency maintained.''], Ok [])"
  by code_simp

end
