(* ===== verification/Sim_Report.thy ===== *)
theory Sim_Report
  imports Example_Programs
begin

text \<open>
  The report the load simulation prints after a run, and its \<open>main\<close>. The measured durations, in
  nanoseconds, and the text of the throughput, a floating-point quotient, are parameters; everything
  else is computed from the counters. A report is \<open>None\<close> if a division by zero panics.
\<close>

section \<open>Measurements\<close>

record timings =
  elapsed :: nat
  read_time :: nat
  write_time :: nat
  guard_time :: nat
  txn_time :: nat
  gc_time :: nat
  max_gc_step_ns :: nat

definition as_millis :: "nat \<Rightarrow> nat" where
  "as_millis ns = ns div 1000000"

text \<open>\<open>/\<close> on unsigned integers, which panics on zero.\<close>

definition checked_div :: "nat \<Rightarrow> nat \<Rightarrow> nat option" where
  "checked_div a b = (if b = 0 then None else Some (a div b))"

section \<open>The report\<close>

definition logical_ops :: "stats \<Rightarrow> nat" where
  "logical_ops st = unat OPS + applied_pending st + guard_retries st"

definition mix_line :: "stats \<Rightarrow> string" where
  "mix_line st =
     ''mix reads='' @ show_nat (reads st) @ '' sets='' @ show_nat (sets st) @ '' deletes='' @
     show_nat (deletes st) @ '' msets='' @ show_nat (msets st) @ '' incr_immediate='' @
     show_nat (incr_immediate st) @ '' incr_delayed='' @ show_nat (incr_delayed st) @ '' txns='' @
     show_nat (txns st)"

definition guard_line :: "stats \<Rightarrow> string" where
  "guard_line st =
     ''guard_conflicts='' @ show_nat (guard_conflicts st) @ '' guard_retries='' @
     show_nat (guard_retries st) @ '' applied_pending='' @ show_nat (applied_pending st)"

definition gc_line :: "stats \<Rightarrow> timings \<Rightarrow> string option" where
  "gc_line st t =
     do {
       avg_gc_step_ns \<leftarrow> checked_div (gc_time t) (max (gc_runs st) 1);
       Some (''gc_runs='' @ show_nat (gc_runs st) @ '' gc_removed='' @ show_nat (gc_removed st) @
             '' gc_time_ms='' @ show_nat (as_millis (gc_time t)) @ '' avg_gc_step_ns='' @
             show_nat avg_gc_step_ns @ '' max_gc_step_ns='' @ show_nat (max_gc_step_ns t))
     }"

definition latency_line :: "stats \<Rightarrow> timings \<Rightarrow> string option" where
  "latency_line st t =
     do {
       avg_read_ns \<leftarrow> checked_div (read_time t) (max (reads st) 1);
       avg_direct_write_ns \<leftarrow> checked_div (write_time t) (max (sets st + deletes st + msets st) 1);
       avg_guard_ns \<leftarrow> checked_div (guard_time t)
         (max (incr_immediate st + applied_pending st + guard_retries st) 1);
       avg_txn_ns \<leftarrow> checked_div (txn_time t) (max (txns st) 1);
       Some (''avg_read_ns='' @ show_nat avg_read_ns @ '' avg_direct_write_ns='' @
             show_nat avg_direct_write_ns @ '' avg_guard_ns='' @ show_nat avg_guard_ns @
             '' avg_txn_ns='' @ show_nat avg_txn_ns)
     }"

definition sim_report :: "(nat \<Rightarrow> nat \<Rightarrow> string) \<Rightarrow> workload_mix \<Rightarrow> stats \<Rightarrow> timings \<Rightarrow> string list option" where
  "sim_report ops_per_sec mix st t =
     do {
       gc \<leftarrow> gc_line st t;
       latency \<leftarrow> latency_line st t;
       Some [''=== '' @ mix_name mix @ '' ==='',
             ''elapsed_ms='' @ show_nat (as_millis (elapsed t)),
             ''logical_ops='' @ show_nat (logical_ops st),
             ''throughput_ops_per_sec='' @ ops_per_sec (logical_ops st) (elapsed t),
             mix_line st, guard_line st, gc, latency, '''']
     }"

text \<open>\<open>main\<close>: the mixes in turn, each with the durations measured during its run.\<close>

fun sim_main ::
  "(nat \<Rightarrow> nat \<Rightarrow> string) \<Rightarrow> (workload_mix \<Rightarrow> timings) \<Rightarrow> workload_mix list \<Rightarrow> string list option" where
  "sim_main ops_per_sec clock [] = Some []"
| "sim_main ops_per_sec clock (mix # mixes) =
     do {
       s \<leftarrow> run_simulation mix;
       lines \<leftarrow> sim_report ops_per_sec mix (sim_stats s) (clock mix);
       rest \<leftarrow> sim_main ops_per_sec clock mixes;
       Some (lines @ rest)
     }"

section \<open>It never panics\<close>

lemma checked_div_max: "checked_div a (max n 1) = Some (a div max n 1)"
  by (simp add: checked_div_def)

lemma averages_defined: "\<exists>line. gc_line st t = Some line" "\<exists>line. latency_line st t = Some line"
  by (simp_all only: gc_line_def latency_line_def checked_div_max bind.simps) blast+

lemma sim_report_total:
  "\<exists>gc latency. sim_report ops_per_sec mix st t =
    Some [''=== '' @ mix_name mix @ '' ==='', ''elapsed_ms='' @ show_nat (as_millis (elapsed t)),
      ''logical_ops='' @ show_nat (logical_ops st),
      ''throughput_ops_per_sec='' @ ops_per_sec (logical_ops st) (elapsed t),
      mix_line st, guard_line st, gc, latency, '''']"
  using averages_defined [of st t] unfolding sim_report_def by (elim exE, simp only: bind.simps) blast

text \<open>Nine lines per mix, the third of them with the number of operations.\<close>

lemma sim_main_total:
  assumes "list_all (\<lambda>mix. total_weight mix \<noteq> 0) mixes"
  shows "\<exists>lines. sim_main ops_per_sec clock mixes = Some lines \<and> length lines = 9 * length mixes"
  using assms
proof (induction mixes)
  case (Cons mix mixes)
  obtain s where s: "run_simulation mix = Some s"
    using run_simulation_safe [of mix] Cons.prems by (auto simp: safe_def)
  obtain lines where "sim_report ops_per_sec mix (sim_stats s) (clock mix) = Some lines" "length lines = 9"
    using sim_report_total [of ops_per_sec mix "sim_stats s" "clock mix"] by auto
  with s Cons show ?case
    by auto
qed simp

end
