(* ===== verification/Program_Properties.thy ===== *)
theory Program_Properties
  imports Sim_Report
begin

text \<open>The properties of the example programs.\<close>

text \<open>
  C22. The load simulation never panics and always ends: for every mix whose weights do not add up to zero (as
  64-bit words, whose sum wraps in a release build), no unwrapped engine call fails, the search for a second key ends, no counter overflows, and the final statistics are
  consistent - every one of the operations is counted once, every delayed increment was applied, every failed
  guard was retried once with success - with the clock advanced by at most two per operation. The report can be
  printed whatever the measured durations: no average divides by zero, and it states the number of logical operations.
\<close>

theorem simulation_never_panics:
  assumes "total_weight mix \<noteq> 0"
  shows "\<exists>s. run_simulation mix = Some s \<and> imb_valid (sim_engine s) \<and> locks (imb_view (sim_engine s)) = Map.empty \<and>
    sim_pending s = [] \<and>
    reads (sim_stats s) + sets (sim_stats s) + deletes (sim_stats s) + msets (sim_stats s) +
      incr_immediate (sim_stats s) + incr_delayed (sim_stats s) + txns (sim_stats s) = unat OPS \<and>
    applied_pending (sim_stats s) = incr_delayed (sim_stats s) \<and>
    guard_conflicts (sim_stats s) = guard_retries (sim_stats s) \<and>
    unat (sim_next_ts s) \<le> 2 + 2 * unat OPS \<and>
    (\<exists>lines. sim_report ops_per_sec mix (sim_stats s) t = Some lines \<and> length lines = 9 \<and>
       lines ! 2 = ''logical_ops='' @
         show_nat (unat OPS + incr_delayed (sim_stats s) + guard_conflicts (sim_stats s)))"
proof -
  obtain s where run: "run_simulation mix = Some s" and inv: "sim_inv (unat OPS) [] s" "sim_pending s = []"
    using run_simulation_safe [OF assms] by (auto simp: safe_def)
  have "applied_pending (sim_stats s) = incr_delayed (sim_stats s)"
    and "guard_conflicts (sim_stats s) = guard_retries (sim_stats s)"
    using inv(1) by (simp_all add: sim_inv_def tally_ok_def)
  then have "logical_ops (sim_stats s) = unat OPS + incr_delayed (sim_stats s) + guard_conflicts (sim_stats s)"
    by (simp add: logical_ops_def)
  then have "\<exists>lines. sim_report ops_per_sec mix (sim_stats s) t = Some lines \<and> length lines = 9 \<and>
      lines ! 2 = ''logical_ops='' @
        show_nat (unat OPS + incr_delayed (sim_stats s) + guard_conflicts (sim_stats s))"
    using sim_report_total [of ops_per_sec mix "sim_stats s" t] by auto
  then show ?thesis
    using run inv by (auto simp: sim_inv_def store_ok_def tally_ok_def commands_def)
qed

theorem simulation_never_panics_witness:
  "list_all (\<lambda>mix. \<exists>s. run_simulation mix = Some s \<and> sim_pending s = []) main_mixes"
proof -
  have "list_all (\<lambda>mix. total_weight mix \<noteq> 0) main_mixes"
    by code_simp
  then show ?thesis
    using simulation_never_panics by (fastforce simp: list_all_iff)
qed

text \<open>
  The four small examples print what their comments say: the direct write is read back, the guarded increment takes
  the counter from 10 to 11, the two-key transaction is invisible before its commit and visible as a whole after it, and
  an abort can be replayed, after which no key is left.
\<close>

theorem examples_run_as_described:
  "direct_set_main =
     Some [''Executing SET config_version = '1.0' at TS 10'',
           ''Read at TS 15: Some('' @ quote @ ''1.0'' @ quote @ '')''] \<and>
   guarded_incr_main =
     Some [''Attempting to increment counter from 10 to 11 at TS 10'', ''Increment successful!'',
           ''Final value: Some('' @ quote @ ''11'' @ quote @ '')''] \<and>
   multi_key_intent_txn_main =
     Some [''Step 1: prewriting intents for account_a and account_b at TS 10'',
           ''Prewrite successful! Locks acquired.'', ''Reader at TS 15 sees account_a: None'',
           ''Step 2: committing transaction at TS 20'', ''Commit successful!'',
           ''Reader at TS 25 sees account_a: '' @ quote @ ''900'' @ quote,
           ''Reader at TS 25 sees account_b: '' @ quote @ ''1100'' @ quote] \<and>
   map_option (\<lambda>(lines, e). (lines, imb_all_keys e)) abort_replay_main =
     Some ([''Intents written for ['' @ quote @ ''key1'' @ quote @ '', '' @ quote @ ''key2'' @ quote @ '']'',
            ''Executing first abort request...'', ''First abort successful.'',
            ''Executing second abort request (retry)...'',
            ''Second abort successful. Idempotency maintained.''], Ok [])"
  by (intro conjI direct_set_run guarded_incr_run multi_key_intent_txn_run abort_replay_run)

text \<open>
  Printing an unsigned integer and parsing the text returns it, and only ASCII text parses.
\<close>

theorem decimal_round_trip:
  "parse_u64 (ascii (show_nat (unat n))) = Some n \<and>
   from_utf8 (ascii (show_nat (unat n))) = Some (ascii (show_nat (unat n)))"
  using parse_u64_to_string parse_u64_utf8 by blast

end
