(* ===== verification/Display_Laws.thy ===== *)
theory Display_Laws
  imports Mvcc_Display
begin

text \<open>
  The error texts are unambiguous: numbers and byte vectors can be read back from where they stand, since
  what follows a number is no digit and what a byte vector contains is no bracket, and so no two errors
  of a type have the same text.
\<close>

section \<open>Numbers\<close>

definition digits :: "char set" where
  "digits = set ''0123456789''"

text \<open>Reading back the longest prefix of characters in \<open>D\<close>.\<close>

lemma append_split_set:
  assumes "set xs \<subseteq> D" and "set ys \<subseteq> D" and "s = [] \<or> hd s \<notin> D" and "s' = [] \<or> hd s' \<notin> D"
  shows "xs @ s = ys @ s' \<longleftrightarrow> xs = ys \<and> s = s'"
proof
  assume eq: "xs @ s = ys @ s'"
  have part: "takeWhile (\<lambda>c. c \<in> D) (zs @ t) = zs" if "set zs \<subseteq> D" "t = [] \<or> hd t \<notin> D" for zs t
    using that by (cases t) (auto simp: takeWhile_append)
  have "xs = ys"
    using part [OF assms(1,3)] part [OF assms(2,4)] eq by simp
  with eq show "xs = ys \<and> s = s'"
    by simp
qed simp

lemma digit_char:
  fixes d :: nat
  assumes "d < 10"
  shows "char_of (48 + d) \<in> digits \<and> of_char (char_of (48 + d) :: char) = 48 + d"
proof -
  have "\<forall>d\<in>set [0..<10 :: nat]. char_of (48 + d) \<in> digits \<and> of_char (char_of (48 + d) :: char) = 48 + d"
    by code_simp
  with assms show ?thesis
    by (simp del: of_char_of)
qed

lemma set_show_nat: "set (show_nat n) \<subseteq> digits"
proof (induction n rule: show_nat.induct)
  case (1 n)
  then show ?case
    using digit_char [of n] digit_char [of "n mod 10"] by (subst show_nat.simps) auto
qed

definition digits_value :: "string \<Rightarrow> nat" where
  "digits_value s = foldl (\<lambda>a c. a * 10 + (of_char c - 48)) 0 s"

lemma digits_value_show_nat: "digits_value (show_nat n) = n"
proof (induction n rule: show_nat.induct)
  case (1 n)
  show ?case
  proof (cases "n < 10")
    case True
    then show ?thesis
      using digit_char [of n] by (subst show_nat.simps) (simp add: digits_value_def)
  next
    case False
    then show ?thesis
      using 1 digit_char [of "n mod 10"] by (subst show_nat.simps) (simp add: digits_value_def)
  qed
qed

lemma show_nat_eq: "show_nat m = show_nat n \<longleftrightarrow> m = n"
  by (metis digits_value_show_nat)

lemma show_nat_append_eq:
  assumes "c \<notin> digits" and "c' \<notin> digits"
  shows "show_nat m @ c # s = show_nat n @ c' # s' \<longleftrightarrow> m = n \<and> c = c' \<and> s = s'"
  using assms by (subst append_split_set [OF set_show_nat set_show_nat]) (simp_all add: show_nat_eq)

section \<open>Fields\<close>

named_theorems text_eq
declare digits_def [text_eq]

lemma display_timestamp_eq [text_eq]: "display_timestamp s = display_timestamp t \<longleftrightarrow> s = t"
  by (cases s; cases t) (simp add: display_timestamp_def show_nat_eq word_unat_eq_iff)

lemma display_timestamp_append_eq [text_eq]:
  "c \<notin> digits \<Longrightarrow> c' \<notin> digits \<Longrightarrow>
   display_timestamp s @ c # x = display_timestamp t @ c' # y \<longleftrightarrow> s = t \<and> c = c' \<and> x = y"
  by (cases s; cases t) (simp add: display_timestamp_def show_nat_append_eq word_unat_eq_iff)

lemma display_txn_id_eq [text_eq]: "display_txn_id s = display_txn_id t \<longleftrightarrow> s = t"
  by (cases s; cases t) (simp add: display_txn_id_def show_nat_eq word_unat_eq_iff)

lemma join_comma_Cons:
  "join_comma (map show_u8 (b # bs)) =
     show_u8 b @ (if bs = [] then [] else '', '' @ join_comma (map show_u8 bs))"
  by (cases bs) simp_all

lemma join_comma_chars: "set (join_comma (map show_u8 bs)) \<subseteq> insert CHR '','' (insert CHR '' '' digits)"
proof (induction bs)
  case (Cons b bs)
  have "set (show_u8 b) \<subseteq> digits"
    by (simp add: show_u8_def set_show_nat)
  with Cons show ?case
    unfolding join_comma_Cons by auto
qed simp

lemma show_u8_append_eq:
  assumes "s = [] \<or> hd s \<notin> digits" and "s' = [] \<or> hd s' \<notin> digits"
  shows "show_u8 a @ s = show_u8 b @ s' \<longleftrightarrow> a = b \<and> s = s'"
  unfolding show_u8_def
  by (subst append_split_set [OF set_show_nat set_show_nat assms]) (simp add: show_nat_eq word_unat_eq_iff)

lemma join_comma_eq: "join_comma (map show_u8 bs) = join_comma (map show_u8 cs) \<longleftrightarrow> bs = cs"
proof (induction bs arbitrary: cs)
  case Nil
  then show ?case
    by (cases cs) (simp_all only: join_comma_Cons list.map(1) join_comma.simps(1), simp_all add: show_u8_def)
next
  case (Cons b bs)
  show ?case
  proof (cases cs)
    case Nil
    then show ?thesis
      by (simp only: join_comma_Cons list.map(1) join_comma.simps(1)) (simp add: show_u8_def)
  next
    case (Cons c cs')
    have "join_comma (map show_u8 (b # bs)) = join_comma (map show_u8 (c # cs')) \<longleftrightarrow>
        b = c \<and> (if bs = [] then [] else '', '' @ join_comma (map show_u8 bs)) =
          (if cs' = [] then [] else '', '' @ join_comma (map show_u8 cs'))"
      unfolding join_comma_Cons by (rule show_u8_append_eq) (simp_all add: digits_def)
    then show ?thesis
      using Cons.IH [of cs'] unfolding Cons by auto
  qed
qed

lemma debug_bytes_append_eq [text_eq]: "debug_bytes k @ s = debug_bytes k' @ s' \<longleftrightarrow> k = k' \<and> s = s'"
  using append_split_set [OF join_comma_chars join_comma_chars, of "CHR '']'' # s" "CHR '']'' # s'" k k']
  by (simp add: debug_bytes_def join_comma_eq digits_def)

lemma debug_bytes_eq [text_eq]: "debug_bytes k = debug_bytes k' \<longleftrightarrow> k = k'"
  using debug_bytes_append_eq [of k "[]" k' "[]"] by simp

lemma debug_timestamp_option_append_eq [text_eq]:
  "debug_timestamp_option s @ x = debug_timestamp_option t @ y \<longleftrightarrow> s = t \<and> x = y"
  by (cases s; cases t) (simp_all add: debug_timestamp_option_def text_eq)

section \<open>Errors\<close>

lemma display_read_error_eq: "display_read_error e = display_read_error e' \<longleftrightarrow> e = e'"
  by (cases e; cases e') simp

lemma display_abort_error_eq: "display_abort_error e = display_abort_error e' \<longleftrightarrow> e = e'"
  by (cases e; cases e') simp

lemma display_prewrite_error_eq: "display_prewrite_error e = display_prewrite_error e' \<longleftrightarrow> e = e'"
  by (cases e; cases e') (simp_all add: text_eq)

lemma display_commit_error_eq: "display_commit_error e = display_commit_error e' \<longleftrightarrow> e = e'"
  by (cases e; cases e') (auto simp add: text_eq)

lemma display_gc_error_eq: "display_gc_error e = display_gc_error e' \<longleftrightarrow> e = e'"
  by (cases e; cases e') simp_all

lemma display_codec_error_eq: "display_codec_error e = display_codec_error e' \<longleftrightarrow> e = e'"
  by (cases e; cases e') simp_all

lemma display_batch_error_eq: "display_batch_error e = display_batch_error e' \<longleftrightarrow> e = e'"
  by (cases e; cases e') (auto simp add: text_eq)

lemma display_batch_prewrite_error_eq:
  "display_batch_prewrite_error e = display_batch_prewrite_error e' \<longleftrightarrow> e = e'"
  by (cases e; cases e') (auto simp add: text_eq)

lemma display_batch_commit_error_eq:
  "display_batch_commit_error e = display_batch_commit_error e' \<longleftrightarrow> e = e'"
  by (cases e; cases e') (auto simp add: text_eq)

lemma display_batch_abort_error_eq:
  "display_batch_abort_error e = display_batch_abort_error e' \<longleftrightarrow> e = e'"
  by (cases e; cases e') (auto simp add: text_eq)

text \<open>
  C37. Error texts are unambiguous: within each of the ten error types, two errors with the same \<open>Display\<close> text are the same
  error, with the same keys, timestamps and transaction ids in it.
\<close>

theorem error_texts_unambiguous:
  "inj display_read_error \<and> inj display_prewrite_error \<and> inj display_commit_error \<and> inj display_abort_error \<and>
   inj display_gc_error \<and> inj display_codec_error \<and> inj display_batch_error \<and> inj display_batch_prewrite_error \<and>
   inj display_batch_commit_error \<and> inj display_batch_abort_error"
  by (simp add: inj_def display_read_error_eq display_prewrite_error_eq display_commit_error_eq display_abort_error_eq
      display_gc_error_eq display_codec_error_eq display_batch_error_eq display_batch_prewrite_error_eq
      display_batch_commit_error_eq display_batch_abort_error_eq)

end
