(* ===== verification/Spec2Isabelle.thy ===== *)
theory Spec2Isabelle
  imports Engine_Properties Read_Properties Gc_Properties Codec_Properties Suite_Properties
    Program_Properties Display_Laws
begin

text \<open>
  \<^bold>\<open>The multi-version concurrency control core of NexirDB\<close>

  The crate keeps, per key, committed versions ordered by commit timestamp (a version without a value is a
  tombstone) and at most one intent, the provisional write of an open transaction. \<open>MvccEngine\<close>
  (\<open>src/src/engine.rs\<close>) implements snapshot reads, two-phase intents (prewrite, commit, abort), their
  batches, direct and guarded batches, and garbage collection, over any implementation of the trait
  \<open>Backend\<close> (\<open>src/src/backend.rs\<close>), of which \<open>InMemoryBackend\<close> is the one supplied. The engine has no
  state but the backend; it validates first and then changes the store by a single atomic backend call.
  \<open>codec.rs\<close> gives versions and intents a binary form, \<open>conformance.rs\<close> holds the tests an adapter author runs,
  \<open>examples/\<close> has client programs, and the test support runs schedules of engine calls.

  \<^bold>\<open>Theories and what they model\<close>

  \<^item> \<open>Mvcc_Prelude\<close>: \<open>Result\<close> as a sum (\<open>Ok\<close>, \<open>Err\<close>, \<open>map_err\<close>, \<open>res_bind\<close> for \<open>?\<close>), machine integers as
    words, sorted lists. \<open>Rust_Runtime\<close>: panics as \<open>None\<close>, \<open>unwrap\<close>, assertions, loops, byte strings,
    UTF-8 validation, decimal printing and parsing.
  \<^item> \<open>Mvcc_Types\<close> (\<open>types.rs\<close>), \<open>Mvcc_Errors\<close> (\<open>error.rs\<close>), \<open>Mvcc_Display\<close> and \<open>Debug_Text\<close> (the \<open>Display\<close> texts
    of both and the \<open>Debug\<close> texts that programs print), \<open>Display_Laws\<close> (how texts are read back).
  \<^item> \<open>Mvcc_View\<close>: the abstract state \<open>mvcc_view\<close>, a history per key and the intents, with what a reader at a
    timestamp sees. \<open>Mvcc_Backend\<close>: the trait as a record of methods, its default methods, and its documented
    contract as the locales \<open>backend_reads\<close> (an \<open>Ok\<close> answer is right for the view), \<open>backend_contract\<close> (every
    mutating call is an all-or-nothing step of the view, and may fail), \<open>committed_store\<close> (the committed-version
    methods never fail) and \<open>total_backend\<close> (no method fails, except for the
    prefix scans that must be refused); \<open>history_store\<close> asks only that the calls of the collector do not fail.
  \<^item> \<open>Ordered_Collections\<close> and \<open>In_Memory_Backend\<close>: \<open>BTreeMap\<close> and \<open>BTreeSet\<close> as sorted lists, the eighteen
    methods of \<open>InMemoryBackend\<close>, its representation invariant \<open>imb_valid\<close> (sorted maps, and the key set is
    exactly the set of keys in use) and abstraction \<open>imb_view\<close>, and the interpretation of these locales.
    \<open>Failing_Backend\<close>: the fault-injecting backend of \<open>tests/failure_tests.rs\<close>, which interprets
    \<open>backend_contract\<close> and \<open>history_store\<close>. \<open>Committed_Only\<close>: any backend with the trait's default intent methods.
    \<open>Delegation\<close>: the locale \<open>delegating_backend\<close>, a wrapper that answers as the backend inside it and so keeps its
    contract; \<open>Spy_Backend\<close> and \<open>Spy_Laws\<close>: the recording backend of \<open>tests/gc_tests.rs\<close>, an instance of it, and
    the calls a collection step makes, branch by branch.
  \<^item> \<open>Mvcc_Engine\<close>: reads, single-key operations and batches, one definition per method and per loop, every
    early return a branch. \<open>Mvcc_Gc\<close>: \<open>plan_key_gc\<close>, \<open>gc_incremental\<close> cut into the branches of its loop, and
    the deprecated \<open>gc\<close>.
  \<^item> \<open>Mvcc_Spec\<close>, \<open>Gc_Spec\<close>: what the operations promise, over views alone. \<open>Engine_Laws\<close>, \<open>Gc_Laws\<close>: inside
    the locales, the engine implements the specification on every backend that keeps the contract. \<open>Gc_Runs\<close>: runs of
    incremental steps, as a client makes them, and the budgets at the limits of \<open>usize\<close>.
  \<^item> \<open>Mvcc_Schedule\<close> (\<open>tests/support/model.rs\<close>): the action language, both interpreters, and the transition
    system \<open>view_step\<close> / \<open>view_run\<close> that every contract-keeping backend simulates.
    \<open>Schedule_Origins\<close>: which action of a schedule a stored intent or version comes from.
    \<open>Backend_Equivalence\<close>: on a backend that never fails an action is a function of the view. \<open>Replay\<close>: actions
    that are sent again.
  \<^item> \<open>Replanning\<close>: the client of the planner in \<open>tests/key_gc_planner_contract_tests.rs\<close>, which carries out a plan, and
    the loop of planning and carrying out until a plan is complete.
  \<^item> \<open>Mvcc_Codec\<close> (\<open>codec.rs\<close>): encoders and decoders with panics as a value; the locale \<open>field_codec\<close> is
    interpreted for every field, and records are sequences of fields. \<open>Codec_Order\<close>: how encoded records compare.
  \<^item> \<open>Mvcc_Conformance\<close> (\<open>conformance.rs\<close>): the sixteen tests as programs over a method table.
  \<^item> \<open>Load_Sim\<close>, \<open>Load_Sim_Laws\<close> and \<open>Sim_Report\<close> (\<open>examples/command_load_sim.rs\<close>: the run and the printed report),
    \<open>Example_Programs\<close> (the other examples, with the lines they print).

  \<^bold>\<open>What is shown\<close>

  \<^item> \<open>Engine_Properties\<close>: the in-memory backend meets the contract; every transactional operation does exactly
    what its specification says, batches are all-or-nothing with justified errors, and no validation error is
    preceded by a mutation, on any backend.
  \<^item> \<open>Read_Properties\<close>: reads return the newest version at or below their timestamp; first committer wins; a batch
    becomes visible at once; guards are still current when a guarded batch succeeds; key scans.
  \<^item> \<open>Gc_Properties\<close>: with budgets from \<open>1\<close> to \<open>usize::MAX - 1\<close> collection compacts exactly, stays in its
    budget, makes progress and ends, and a run of steps with changing budgets compacts the store when it is done; with all
    budgets but \<open>max_versions = usize::MAX\<close> together with tombstone collapse it changes no value read at or above the safe
    point, an interrupted step is safe, and the calls of a step are those the trait allows its callers; repeated bounded
    planning drains a key; the two wrap-arounds at \<open>usize::MAX\<close>.
  \<^item> \<open>Codec_Properties\<close>: decoding accepts exactly the encodings and inverts them, and never panics; encoded versions
    sort by key length, key and timestamp.
  \<^item> \<open>Suite_Properties\<close>: every conforming backend behaves as the in-memory one on every schedule and passes the
    conformance suites; an action sent twice changes nothing more, and an accepted commit is never applied again;
    on committed-only backends prewrites and commits are refused, and no intent operation changes the state.
    \<open>Program_Properties\<close>: the load simulation never panics, ends, and can print its report; the small examples print what they announce. \<open>Display_Laws\<close>: no two errors of a type have the same text.
  \<^item> This theory: what spans all of it - the checks of the schedule interpreter never fail, snapshots are
    repeatable, no update is lost, a prewritten intent can always be committed, every reachable state is well
    formed, and everything stored comes from an action of the schedule.

  \<^bold>\<open>Choices\<close>

  Timestamps are 128-bit words, transaction ids 64-bit words, bytes 8-bit words; \<open>usize\<close> is a 64-bit word
  wherever a caller supplies it, so \<open>max_keys + 1\<close> and \<open>limit + 1\<close> wrap as in a release build; so do
  the weights of a simulated workload. The increment of a parsed counter is checked, and shown not to overflow. Lengths of
  collections and counters of things in memory are natural numbers. The loop of \<open>gc\<close>, the repeated planning of a key
  and the search for a second key in the simulation are \<open>partial_function\<close>s, where \<open>None\<close> is a loop that never ends; all
  are shown to end, by a measure on the work left (\<open>gc_work\<close>, the number of obsolete versions) and by the parity of the
  random generator. No definition uses fuel.
  \<open>HashMap\<close> and \<open>HashSet\<close> are used only through lookups, so a map and a set model them.

  \<^bold>\<open>Not modelled\<close>

  The crate root (module declarations), the clock (the durations of a report are parameters, as is the text of its
  floating-point throughput), the \<open>Debug\<close> escapes of unprintable characters beyond ASCII (they are taken as
  printable) and the \<open>Debug\<close> texts no program prints, the benchmarks, and the test functions other than the schedule
  interpreters, the fault-injecting and the recording backend and the execution of plans. The
  derived \<open>Clone\<close> is the identity, and derived equalities and orders are those of the datatypes. Durability is
  outside the crate: a backend's persistence enters only through the contract.
\<close>

section \<open>Whole schedules\<close>

text \<open>
  C1. The checks that the schedule interpreter of the test support makes never fail: from a new in-memory
  backend every schedule of the nine kinds of action runs to its end, no \<open>unwrap\<close> of a snapshot panics, a failed action never
  changes the snapshot, collection never removes an intent, and the run ends in the state of the plain interpreter.
\<close>

theorem schedule_checks_pass:
  "\<exists>e. apply_and_verify_schedule in_memory_ops in_memory_new as = Some e \<and>
     apply_schedule in_memory_ops in_memory_new as = Some e \<and> imb_valid e"
  using imb.apply_and_verify_schedule_passes [OF in_memory_new_valid, of "as"] by blast

text \<open>
  C2. Snapshot reads are repeatable: a read at \<open>ts\<close> returns the same value and version before and after any schedule
  whose commits are above \<open>ts\<close> and whose collections have their safe point at or below \<open>ts\<close>.
\<close>

theorem snapshot_reads_repeatable:
  assumes "imb_valid e" and "apply_schedule in_memory_ops e as = Some e'"
    and "\<forall>a\<in>set as. keeps_snapshot ts a"
  shows "read_with_version in_memory_ops e' k ts = read_with_version in_memory_ops e k ts \<and>
    read in_memory_ops e' k ts = read in_memory_ops e k ts"
  using imb_contract.apply_schedule_visible [OF assms, of k] assms(1)
  by (simp add: visible_value_def)

theorem snapshot_reads_repeatable_witness:
  "\<exists>e'. apply_schedule in_memory_ops ex_put [Prewrite (TxnId 1) (Timestamp 6) [1] (Put [8]),
       Commit (TxnId 1) [1] (Timestamp 6) (Timestamp 9), Gc (Timestamp 7)] = Some e' \<and>
     read in_memory_ops e' [1] (Timestamp 7) = read in_memory_ops ex_put [1] (Timestamp 7)"
proof -
  let ?as = "[Prewrite (TxnId 1) (Timestamp 6) [1] (Put [8]),
       Commit (TxnId 1) [1] (Timestamp 6) (Timestamp 9), Gc (Timestamp 7)]"
  obtain e' where run: "apply_schedule in_memory_ops ex_put ?as = Some e'"
    using imb_contract.apply_schedule_simulates [OF ex_valid(1), of ?as] by blast
  then show ?thesis
    using snapshot_reads_repeatable [OF ex_valid(1) run, of "Timestamp 7" "[1]"]
    by (simp add: keeps_snapshot_def)
qed

lemma reachable_state:
  assumes "apply_schedule in_memory_ops in_memory_new as = Some e"
  shows "imb_valid e" and "intents_ok (imb_view e)"
  using imb_contract.apply_schedule_intents_ok [OF in_memory_new_valid _ assms]
  by (simp_all add: intents_ok_def)

text \<open>
  C3. No lost update: whenever a commit succeeds in a state reached by a schedule, no version of the key is newer than the
  transaction's start - every read from the start timestamp on still returns what the transaction could read - and
  afterwards a read at the commit timestamp returns what the transaction wrote.
\<close>

theorem no_lost_update:
  assumes "apply_schedule in_memory_ops in_memory_new as = Some e"
    and "commit in_memory_ops e txn k s c = (Ok (), e')" and "s \<le> ts"
  shows "s < c \<and> read_with_version in_memory_ops e k ts = read_with_version in_memory_ops e k s \<and>
    read in_memory_ops e' k c = read_own_write in_memory_ops e k txn s c"
proof -
  let ?h = "vers (imb_view e) k"
  note e = reachable_state [OF assms(1)]
  have e': "imb_valid e'" and spec: "(Ok (), imb_view e') = spec_commit (imb_view e) txn k s c"
    using imb.commit_exact [OF e(1) assms(2)] by auto
  have v': "imb_view e' = commit_view (imb_view e) c {k}" and own: "owns (imb_view e) k txn s"
    and sc: "s < c" and above: "above_all ?h c"
    using spec by (auto simp: spec_commit_def owns_def split: option.splits if_splits)
  have "no_newer ?h s"
    using intents_ok_owns [OF e(2) own sc] by blast
  then have "visible ?h ts = visible ?h s"
    using assms(3) by (rule no_newer_visible)
  moreover have "visible_value (vers (imb_view e') k) c = mutation_value (intent_mutation (the (locks (imb_view e) k)))"
    using visible_update [of ?h c _ c] imb_reads.finite_vers [OF e(1)] above
    by (simp add: v' commit_view_def visible_value_def above_all_def)
  ultimately show ?thesis
    using sc own e(1) e' by (simp add: imb.read_own_write_eq)
qed

theorem no_lost_update_witness:
  "\<exists>e'. commit in_memory_ops ex_intent (TxnId 1) [1] (Timestamp 6) (Timestamp 9) = (Ok (), e') \<and>
     read_with_version in_memory_ops ex_intent [1] (Timestamp 8) =
       read_with_version in_memory_ops ex_intent [1] (Timestamp 6)"
proof -
  obtain r e' where call: "commit in_memory_ops ex_intent (TxnId 1) [1] (Timestamp 6) (Timestamp 9) = (r, e')"
    by fastforce
  have "fst (commit in_memory_ops ex_intent (TxnId 1) [1] (Timestamp 6) (Timestamp 9)) = Ok ()"
    by code_simp
  with call have call': "commit in_memory_ops ex_intent (TxnId 1) [1] (Timestamp 6) (Timestamp 9) = (Ok (), e')"
    by simp
  show ?thesis
    using call' no_lost_update [OF ex_runs(2) call', of "Timestamp 8"] by simp
qed

text \<open>
  C4. A prewritten transaction can always commit: in every state reached by a schedule, committing an intent that is in
  place at any timestamp above its start succeeds, removes the intent, and makes its value visible from then on.
\<close>

theorem prewritten_intent_commits:
  assumes "apply_schedule in_memory_ops in_memory_new as = Some e"
    and "locks (imb_view e) k = Some i" and "intent_start_ts i < c"
  shows "\<exists>e'. commit in_memory_ops e (intent_txn_id i) k (intent_start_ts i) c = (Ok (), e') \<and> imb_valid e' \<and>
    locks (imb_view e') k = None \<and>
    (\<forall>ts. read in_memory_ops e' k ts =
       (if c \<le> ts then Ok (mutation_value (intent_mutation i)) else read in_memory_ops e k ts))"
proof -
  note e = reachable_state [OF assms(1)]
  have own: "owns (imb_view e) k (intent_txn_id i) (intent_start_ts i)"
    using assms(2) by (simp add: owns_def)
  obtain e' where call: "commit in_memory_ops e (intent_txn_id i) k (intent_start_ts i) c = (Ok (), e')"
    and e': "imb_valid e'" "imb_view e' = commit_view (imb_view e) c {k}"
    using imb.commit_succeeds [OF e own assms(3)] by blast
  have "above_all (vers (imb_view e) k) c"
    using intents_ok_owns [OF e(2) own assms(3)] by blast
  then have "visible_value (vers (imb_view e') k) ts =
      (if c \<le> ts then mutation_value (intent_mutation i) else visible_value (vers (imb_view e) k) ts)" for ts
    using visible_update [of "vers (imb_view e) k" c _ ts] imb_reads.finite_vers [OF e(1)] assms(2)
    by (simp add: e'(2) commit_view_def visible_value_def above_all_def)
  then show ?thesis
    using call e' e(1) by (auto simp: commit_view_def)
qed

theorem prewritten_intent_commits_witness:
  "\<exists>e'. commit in_memory_ops ex_intent (TxnId 1) [1] (Timestamp 6) (Timestamp 9) = (Ok (), e') \<and>
     read in_memory_ops e' [1] (Timestamp 9) = Ok (Some [8])"
  using prewritten_intent_commits [OF ex_runs(2), of "[1]" _ "Timestamp 9"] by (auto simp: ex_views)

text \<open>
  C5. States are well formed: in every state a schedule reaches, the version map is sorted by key and timestamp and the
  key set is sorted, each without a repetition; a key is in the key set exactly if it has a version or an intent; and every
  intent is stored under its own key, carries no minimal commit timestamp, and is not older than a version of its key.
\<close>

theorem reachable_states_well_formed:
  assumes "apply_schedule in_memory_ops in_memory_new as = Some e"
  shows "strict_sorted_list (map fst (committed e)) \<and> strict_sorted_list (all_keys_set e) \<and>
    (k \<in> set (all_keys_set e) \<longleftrightarrow> (\<exists>t x. ((k, t), x) \<in> set (committed e)) \<or> intents e k \<noteq> None) \<and>
    (\<forall>i. intents e k = Some i \<longrightarrow>
       intent_key i = k \<and> intent_min_commit_ts i = None \<and>
       (\<forall>t x. ((k, t), x) \<in> set (committed e) \<longrightarrow> t \<le> intent_start_ts i))"
proof -
  note e = reachable_state [OF assms]
  have newer: "t \<in> dom (vers (imb_view e) k)" if "((k, t), x) \<in> set (committed e)" for t x
    using that by (subst imb_vers_dom) force
  have keys: "set (all_keys_set e) = (\<lambda>e. fst (fst e)) ` set (committed e) \<union> dom (intents e)"
    and sorted: "strict_sorted_list (map fst (committed e))" "strict_sorted_list (all_keys_set e)"
    using e(1) by (simp_all add: imb_valid_def btree_inv_def)
  have "k \<in> set (all_keys_set e) \<longleftrightarrow> (\<exists>t x. ((k, t), x) \<in> set (committed e)) \<or> intents e k \<noteq> None"
    unfolding keys by force
  moreover have "intent_key i = k \<and> intent_min_commit_ts i = None \<and>
      (\<forall>t x. ((k, t), x) \<in> set (committed e) \<longrightarrow> t \<le> intent_start_ts i)" if "intents e k = Some i" for i
    using e(2) that newer by (auto simp: intents_ok_def no_newer_def imb_view_simps)
  ultimately show ?thesis
    using sorted by blast
qed

theorem reachable_states_well_formed_witness:
  "strict_sorted_list (all_keys_set ex_intent) \<and> [1] \<in> set (all_keys_set ex_intent)"
proof -
  have "intents ex_intent [1] \<noteq> None"
    using ex_views(4) by (simp add: imb_view_simps)
  then show ?thesis
    using reachable_states_well_formed [OF ex_runs(2), of "[1]"] by blast
qed

text \<open>
  C6. Nothing appears from nowhere: in every state a schedule reaches, an intent was placed by a prewrite of the schedule,
  and a version was written at its own timestamp by a direct or guarded batch of the schedule, or committed at its own
  timestamp from an intent that an earlier prewrite placed. So every value a read returns is one of those.
\<close>

theorem stored_data_have_origins:
  assumes "apply_schedule in_memory_ops in_memory_new as = Some e"
  shows "(\<forall>i. intents e k = Some i \<longrightarrow> intent_key i = k \<and> intent_origin as i) \<and>
    (\<forall>t x. ((k, t), x) \<in> set (committed e) \<longrightarrow> version_origin as k t x) \<and>
    (\<forall>x. read in_memory_ops e k ts = Ok (Some x) \<longrightarrow> (\<exists>t\<le>ts. version_origin as k t (Some x)))"
proof -
  note valid = reachable_state(1) [OF assms]
  have o: "view_origins as (imb_view e)"
    using imb_contract.apply_schedule_origins [OF in_memory_new_valid _ assms] by (simp add: view_origins_def)
  have "map_of (committed e) (k, t) = Some x" if "((k, t), x) \<in> set (committed e)" for t x
    using valid that by (auto simp: imb_valid_def intro: map_of_is_SomeI btree_inv_distinct)
  then have "version_origin as k t x" if "((k, t), x) \<in> set (committed e)" for t x
    using that view_origins_vers [OF o] by (simp add: imb_view_simps)
  moreover have "\<exists>t\<le>ts. version_origin as k t (Some x)" if "read in_memory_ops e k ts = Ok (Some x)" for x
  proof -
    from that valid have "visible_value (vers (imb_view e) k) ts = Some x"
      by simp
    then obtain t where "visible (vers (imb_view e) k) ts = Some (t, Some x)"
      by (auto simp: visible_value_def Option.bind_eq_Some_conv)
    then have "vers (imb_view e) k t = Some (Some x)" "t \<le> ts"
      using imb_reads.finite_vers [OF valid] by (auto simp: visible_Some_iff)
    then show ?thesis
      using view_origins_vers [OF o] by blast
  qed
  ultimately show ?thesis
    using view_origins_locks [OF o, of k] by (simp add: imb_view_simps)
qed

theorem stored_data_have_origins_witness:
  "version_origin [ex_write (Timestamp 5) (Some [7]), Prewrite (TxnId 1) (Timestamp 6) [1] (Put [8])]
     [1] (Timestamp 5) (Some [7])"
proof -
  have "((([1], Timestamp 5), Some [7]) :: (key \<times> timestamp) \<times> val option) \<in> set (committed ex_intent)"
    by code_simp
  then show ?thesis
    using stored_data_have_origins [OF ex_runs(2), of "[1]"] by blast
qed

end
